theory Spec2Isabelle
  imports Main
begin

section \<open>Go strings, bytes and runes\<close>

text \<open>
  A Go \<^verbatim>\<open>string\<close> and a \<^verbatim>\<open>[]byte\<close> are sequences of bytes: they are modelled
  as \<^typ>\<open>string\<close> (a list of 8-bit characters); \<^verbatim>\<open>len\<close> is \<^const>\<open>length\<close>,
  \<^verbatim>\<open>s[i:]\<close> is \<^const>\<open>drop\<close>, \<^verbatim>\<open>s[:i]\<close> is \<^const>\<open>take\<close>. A \<^verbatim>\<open>rune\<close> is a
  signed integer (a code point). Go's \<^verbatim>\<open>int\<close> is modelled as \<^typ>\<open>int\<close>: the lengths
  involved are far below $2^{63}$.
\<close>

type_synonym rune = int

abbreviation byte :: "char \<Rightarrow> nat" where
  "byte c \<equiv> of_char c"

definition RuneError :: rune where
  "RuneError = 0xFFFD"

definition locb :: nat where "locb = 0x80"
definition hicb :: nat where "hicb = 0xBF"

text \<open>
  The tables \<^verbatim>\<open>first\<close> and \<^verbatim>\<open>acceptRanges\<close> of Go's \<^verbatim>\<open>unicode/utf8\<close>: for a lead
  byte, the length of the sequence and the accepted range of the second byte.
  Length 1 is ASCII, length 0 an invalid lead byte.
\<close>

definition first :: "nat \<Rightarrow> nat \<times> nat \<times> nat" where
  "first b =
    (if b < 0x80 then (1, 0, 0)
     else if b < 0xC2 then (0, 0, 0)
     else if b < 0xE0 then (2, 0x80, 0xBF)
     else if b = 0xE0 then (3, 0xA0, 0xBF)
     else if b < 0xED then (3, 0x80, 0xBF)
     else if b = 0xED then (3, 0x80, 0x9F)
     else if b < 0xF0 then (3, 0x80, 0xBF)
     else if b = 0xF0 then (4, 0x90, 0xBF)
     else if b < 0xF4 then (4, 0x80, 0xBF)
     else if b = 0xF4 then (4, 0x80, 0x8F)
     else (0, 0, 0))"

text \<open>
  \<^verbatim>\<open>utf8.DecodeRuneInString\<close>, which a \<^verbatim>\<open>range\<close> loop over a string applies at every
  step: the rune at the head of the string and its width in bytes. An invalid or
  truncated encoding gives \<^const>\<open>RuneError\<close> with width 1.
\<close>

fun DecodeRuneInString :: "string \<Rightarrow> rune \<times> nat" where
  "DecodeRuneInString [] = (RuneError, 0)"
| "DecodeRuneInString (c0 # s) =
    (let s0 = byte c0; (sz, lo, hi) = first s0 in
     if sz = 1 then (int s0, 1)
     else if sz = 0 then (RuneError, 1)
     else if Suc (length s) < sz then (RuneError, 1)
     else let s1 = byte (s ! 0) in
       if s1 < lo \<or> hi < s1 then (RuneError, 1)
       else if sz \<le> 2 then (int ((s0 mod 32) * 64 + s1 mod 64), 2)
       else let s2 = byte (s ! 1) in
         if s2 < locb \<or> hicb < s2 then (RuneError, 1)
         else if sz \<le> 3 then
           (int ((s0 mod 16) * 4096 + (s1 mod 64) * 64 + s2 mod 64), 3)
         else let s3 = byte (s ! 2) in
           if s3 < locb \<or> hicb < s3 then (RuneError, 1)
           else (int ((s0 mod 8) * 262144 + (s1 mod 64) * 4096
                       + (s2 mod 64) * 64 + s3 mod 64), 4))"

text \<open>
  The runes of a string in order, each with the bytes it was decoded from
  (\<^verbatim>\<open>for _, r := range data\<close> sees the first components).
\<close>

fun tokens :: "string \<Rightarrow> (rune \<times> string) list" where
  "tokens [] = []"
| "tokens (c # s) =
    (let (r, w) = DecodeRuneInString (c # s)
     in (r, take w (c # s)) # tokens (drop (w - 1) s))"

definition runes :: "string \<Rightarrow> rune list" where
  "runes s = map fst (tokens s)"

text \<open>
  \<^verbatim>\<open>utf8.EncodeRune\<close>, as the conversion \<^verbatim>\<open>string(rs)\<close> of a rune slice applies
  it: a rune that is negative, a surrogate or above U+10FFFF is written as
  U+FFFD.
\<close>

definition bytes3 :: "nat \<Rightarrow> string" where
  "bytes3 n = [char_of (0xE0 + n div 4096), char_of (0x80 + (n div 64) mod 64),
               char_of (0x80 + n mod 64)]"

definition EncodeRune :: "rune \<Rightarrow> string" where
  "EncodeRune r =
    (let n = nat r in
     if r < 0 then bytes3 0xFFFD
     else if n \<le> 0x7F then [char_of n]
     else if n \<le> 0x7FF then [char_of (0xC0 + n div 64), char_of (0x80 + n mod 64)]
     else if 0x10FFFF < n \<or> (0xD800 \<le> n \<and> n \<le> 0xDFFF) then bytes3 0xFFFD
     else if n \<le> 0xFFFF then bytes3 n
     else [char_of (0xF0 + n div 262144), char_of (0x80 + (n div 4096) mod 64),
           char_of (0x80 + (n div 64) mod 64), char_of (0x80 + n mod 64)])"

definition string_of_runes :: "rune list \<Rightarrow> string" where
  "string_of_runes rs = concat (map EncodeRune rs)"

section \<open>stripANSI\<close>

text \<open>
  \<^verbatim>\<open>stripANSI\<close> is \<^verbatim>\<open>ansiRegexp.ReplaceAllString(str, "")\<close>. Go's \<^verbatim>\<open>regexp\<close>
  matches over the runes of the string and returns, at the leftmost position
  where the pattern matches, the match a backtracking search finds first
  (greedy operators try the longer match first, an alternation its left branch
  first). \<^term>\<open>rmatch r ts\<close> lists what is left of the input after each way of
  matching \<open>r\<close> at the head of \<open>ts\<close>, in that order of preference.
\<close>

datatype re =
    Eps
  | Cls "(int \<times> int) list"
  | Seq re re
  | Alt re re
  | Opt re
  | Star re

fun inCls :: "(int \<times> int) list \<Rightarrow> rune \<Rightarrow> bool" where
  "inCls [] r = False"
| "inCls ((lo, hi) # cs) r = ((lo \<le> r \<and> r \<le> hi) \<or> inCls cs r)"

function (sequential) rmatch ::
    "re \<Rightarrow> (rune \<times> string) list \<Rightarrow> (rune \<times> string) list list" where
  "rmatch Eps ts = [ts]"
| "rmatch (Cls cs) [] = []"
| "rmatch (Cls cs) (t # ts) = (if inCls cs (fst t) then [ts] else [])"
| "rmatch (Seq a b) ts = concat (map (rmatch b) (rmatch a ts))"
| "rmatch (Alt a b) ts = rmatch a ts @ rmatch b ts"
| "rmatch (Opt a) ts = rmatch a ts @ [ts]"
| "rmatch (Star a) ts =
     concat (map (\<lambda>ts'. if length ts' < length ts then rmatch (Star a) ts' else [])
                 (rmatch a ts)) @ [ts]"
  by pat_completeness auto
termination
  by (relation "measures [\<lambda>(r, ts). size r, \<lambda>(r, ts). length ts]") auto

text \<open>\<^verbatim>\<open>x{0,n}\<close>, as Go expands it: \<^verbatim>\<open>(x(x(x)?)?)?\<close>.\<close>

primrec upto_n :: "re \<Rightarrow> nat \<Rightarrow> re" where
  "upto_n x 0 = Eps"
| "upto_n x (Suc n) = Opt (Seq x (upto_n x n))"

definition ch :: "char \<Rightarrow> int" where
  "ch c = int (byte c)"

definition digit :: re where
  "digit = Cls [(ch CHR ''0'', ch CHR ''9'')]"

definition alnum :: re where
  "alnum = Cls [(ch CHR ''a'', ch CHR ''z''), (ch CHR ''A'', ch CHR ''Z''),
                (ch CHR ''0'', ch CHR ''9'')]"

definition semicolon :: re where
  "semicolon = Cls [(ch CHR '';'', ch CHR '';'')]"

text \<open>
  \<^verbatim>\<open>ansiPattern\<close>:
  \<^verbatim>\<open>[\u001B\u009B][[\]()#;?]*(?:(?:(?:[a-zA-Z\d]*(?:;[a-zA-Z\d]*)*)?\u0007)|(?:(?:\d{1,4}(?:;\d{0,4})*)?[\dA-PRZcf-ntqry=><~]))\<close>
\<close>

definition ansiPattern :: re where
  "ansiPattern =
    Seq (Cls [(0x1B, 0x1B), (0x9B, 0x9B)])
   (Seq (Star (Cls [(ch CHR ''['', ch CHR ''[''), (ch CHR '']'', ch CHR '']''),
                    (ch CHR ''('', ch CHR ''(''), (ch CHR '')'', ch CHR '')''),
                    (ch CHR ''#'', ch CHR ''#''), (ch CHR '';'', ch CHR '';''),
                    (ch CHR ''?'', ch CHR ''?'')]))
        (Alt
          (Seq (Opt (Seq (Star alnum) (Star (Seq semicolon (Star alnum)))))
               (Cls [(0x07, 0x07)]))
          (Seq (Opt (Seq (Seq digit (upto_n digit 3))
                         (Star (Seq semicolon (upto_n digit 4)))))
               (Cls [(ch CHR ''0'', ch CHR ''9''), (ch CHR ''A'', ch CHR ''P''),
                     (ch CHR ''R'', ch CHR ''R''), (ch CHR ''Z'', ch CHR ''Z''),
                     (ch CHR ''c'', ch CHR ''c''), (ch CHR ''f'', ch CHR ''n''),
                     (ch CHR ''t'', ch CHR ''t''), (ch CHR ''q'', ch CHR ''q''),
                     (ch CHR ''r'', ch CHR ''r''), (ch CHR ''y'', ch CHR ''y''),
                     (ch CHR ''='', ch CHR ''=''), (ch CHR ''>'', ch CHR ''>''),
                     (ch CHR ''<'', ch CHR ''<''), (ch CHR ''~'', ch CHR ''~'')]))))"

text \<open>The number of runes of the match of the pattern at the head of the input.\<close>

definition matchLen :: "(rune \<times> string) list \<Rightarrow> nat option" where
  "matchLen ts =
    (case rmatch ansiPattern ts of
       [] \<Rightarrow> None
     | rest # _ \<Rightarrow> Some (length ts - length rest))"

text \<open>
  \<^verbatim>\<open>ReplaceAllString(str, "")\<close>: scanning from the left, a match is cut out and
  the scan goes on behind it; a rune where no match starts is kept, with the
  bytes it had in the input.
\<close>

fun strip_tokens :: "(rune \<times> string) list \<Rightarrow> (rune \<times> string) list" where
  "strip_tokens [] = []"
| "strip_tokens (t # ts) =
    (case matchLen (t # ts) of
       None \<Rightarrow> t # strip_tokens ts
     | Some n \<Rightarrow> if 0 < n then strip_tokens (drop (n - 1) ts) else t # strip_tokens ts)"

definition stripANSI :: "string \<Rightarrow> string" where
  "stripANSI str = concat (map snd (strip_tokens (tokens str)))"

lemma DecodeRuneInString_width: "1 \<le> snd (DecodeRuneInString (c # s))"
  by (simp add: Let_def split: prod.splits)

lemma concat_tokens: "concat (map snd (tokens s)) = s"
proof (induction s rule: tokens.induct)
  case 1
  show ?case by simp
next
  case (2 c s)
  obtain r w where d: "DecodeRuneInString (c # s) = (r, w)"
    by (cases "DecodeRuneInString (c # s)")
  with DecodeRuneInString_width [of c s] have "1 \<le> w" by simp
  then obtain v where w: "w = Suc v" by (cases w) auto
  from 2 [OF d [symmetric] refl] d w show ?case by simp
qed

lemma length_concat_drop:
  "length (concat (map snd (drop n ts))) \<le> length (concat (map snd ts))"
proof -
  have "length (concat (map snd ts))
      = length (concat (map snd (take n ts))) + length (concat (map snd (drop n ts)))"
    by (metis append_take_drop_id concat_append length_append map_append)
  then show ?thesis by simp
qed

lemma length_strip_tokens:
  "length (concat (map snd (strip_tokens ts))) \<le> length (concat (map snd ts))"
proof (induction ts rule: strip_tokens.induct)
  case 1
  show ?case by simp
next
  case (2 t ts)
  show ?case
  proof (cases "matchLen (t # ts)")
    case None
    with 2 show ?thesis by simp
  next
    case (Some n)
    show ?thesis
    proof (cases "0 < n")
      case True
      have "length (concat (map snd (strip_tokens (drop (n - 1) ts))))
            \<le> length (concat (map snd (drop (n - 1) ts)))"
        using 2(2) [OF Some True] .
      also have "\<dots> \<le> length (concat (map snd ts))"
        by (rule length_concat_drop)
      finally show ?thesis using Some True by simp
    next
      case False
      with 2(3) [OF Some] Some show ?thesis by simp
    qed
  qed
qed

lemma length_stripANSI: "length (stripANSI str) \<le> length str"
  using length_strip_tokens [of "tokens str"] by (simp add: stripANSI_def concat_tokens)

section \<open>ShellBuffer\<close>

text \<open>
  What a Go panic is in the model: a slice expression out of bounds, an index out
  of range, a nil pointer dereference, and the \<^verbatim>\<open>panic("Unknown state")\<close> of
  \<^verbatim>\<open>InputFromParent\<close>.
\<close>

datatype panic = SliceBounds | IndexRange | NilDeref | UnknownState

record ShellBuffer =
  buffer :: "rune list"
  cursor :: int

definition NewShellBuffer :: ShellBuffer where
  "NewShellBuffer = \<lparr>buffer = [], cursor = 0\<rparr>"

text \<open>
  \<^verbatim>\<open>this.buffer[:this.cursor]\<close> panics for a negative cursor and
  \<^verbatim>\<open>this.buffer[this.cursor:]\<close> for a cursor beyond the length, so the insertion
  in the middle panics exactly when the cursor is outside the buffer.
\<close>

definition WriteRune :: "ShellBuffer \<Rightarrow> rune \<Rightarrow> panic + ShellBuffer" where
  "WriteRune this r =
    (if cursor this = int (length (buffer this))
     then Inr (this\<lparr>buffer := buffer this @ [r], cursor := cursor this + 1\<rparr>)
     else if cursor this < 0 \<or> int (length (buffer this)) < cursor this
     then Inl SliceBounds
     else Inr (this\<lparr>buffer := take (nat (cursor this)) (buffer this) @ [r]
                               @ drop (nat (cursor this)) (buffer this),
                     cursor := cursor this + 1\<rparr>))"

text \<open>The body of the loop \<^verbatim>\<open>for _, r := range data\<close> of \<^verbatim>\<open>Write\<close>.\<close>

definition WriteLoop :: "ShellBuffer \<Rightarrow> rune \<Rightarrow> panic + ShellBuffer" where
  "WriteLoop this r =
    (if r = 0x0a \<or> r = 0x0d then WriteRune this r
     else if r = 0x08 \<or> r = 0x7f then
       (if 0 < cursor this \<and> 0 < length (buffer this) then
          (if int (length (buffer this)) < cursor this then Inl SliceBounds
           else Inr (this\<lparr>buffer := take (nat (cursor this - 1)) (buffer this)
                                     @ drop (nat (cursor this)) (buffer this),
                           cursor := cursor this - 1\<rparr>))
        else Inr this)
     else WriteRune this r)"

text \<open>A loop whose body may panic: the first panic ends it.\<close>

fun foldP :: "('a \<Rightarrow> 'b \<Rightarrow> panic + 'a) \<Rightarrow> 'a \<Rightarrow> 'b list \<Rightarrow> panic + 'a" where
  "foldP f a [] = Inr a"
| "foldP f a (x # xs) = (case f a x of Inl e \<Rightarrow> Inl e | Inr a' \<Rightarrow> foldP f a' xs)"

function Write :: "ShellBuffer \<Rightarrow> string \<Rightarrow> panic + ShellBuffer" where
  "Write this data =
    (if length data = 0 then Inr this
     else let data' = stripANSI data in
       if length data' = 0 then Inr this
       else if 3 \<le> length data' \<and> data' ! 0 = CHR 0x1B \<and> data' ! 1 = CHR 0x5B
               \<and> data' ! 2 = CHR 0x44
       then Write (this\<lparr>cursor := (if 0 < cursor this then cursor this - 1
                                      else cursor this)\<rparr>) (drop 3 data')
       else if 3 \<le> length data' \<and> data' ! 0 = CHR 0x1B \<and> data' ! 1 = CHR 0x5B
               \<and> data' ! 2 = CHR 0x43
       then Write (this\<lparr>cursor := (if cursor this < int (length (buffer this))
                                      then cursor this + 1 else cursor this)\<rparr>)
                  (drop 3 data')
       else foldP WriteLoop this (runes data'))"
  by pat_completeness auto
termination
proof (relation "measure (\<lambda>(this, data). length data)")
  show "wf (measure (\<lambda>(this, data). length data))" by simp
next
  fix this :: ShellBuffer and data data' :: string
  assume "length data \<noteq> 0" and "data' = stripANSI data" and "length data' \<noteq> 0"
  then show "((this\<lparr>cursor := if 0 < cursor this then cursor this - 1 else cursor this\<rparr>,
               drop 3 data'), this, data) \<in> measure (\<lambda>(this, data). length data)"
    using length_stripANSI [of data] by (cases data) auto
next
  fix this :: ShellBuffer and data data' :: string
  assume "length data \<noteq> 0" and "data' = stripANSI data" and "length data' \<noteq> 0"
  then show "((this\<lparr>cursor := if cursor this < int (length (buffer this))
                 then cursor this + 1 else cursor this\<rparr>,
               drop 3 data'), this, data) \<in> measure (\<lambda>(this, data). length data)"
    using length_stripANSI [of data] by (cases data) auto
qed

declare Write.simps [simp del]

definition String :: "ShellBuffer \<Rightarrow> string" where
  "String this = string_of_runes (buffer this)"

text \<open>
  The operations a client can apply to a line buffer, and a run of them. The
  fields of \<^verbatim>\<open>ShellBuffer\<close> are private: a buffer is only ever made by
  \<^verbatim>\<open>NewShellBuffer\<close> and changed by these two methods.
\<close>

datatype buffer_op = OpWrite string | OpWriteRune rune

fun apply_op :: "ShellBuffer \<Rightarrow> buffer_op \<Rightarrow> panic + ShellBuffer" where
  "apply_op this (OpWrite data) = Write this data"
| "apply_op this (OpWriteRune r) = WriteRune this r"

definition cursor_ok :: "ShellBuffer \<Rightarrow> bool" where
  "cursor_ok this = (0 \<le> cursor this \<and> cursor this \<le> int (length (buffer this)))"

fun returns_ok :: "panic + ShellBuffer \<Rightarrow> bool" where
  "returns_ok (Inl e) = False"
| "returns_ok (Inr this) = cursor_ok this"

section \<open>ShellHistory\<close>

definition historyTypePrompt :: int where "historyTypePrompt = 0"
definition historyTypeShellInput :: int where "historyTypeShellInput = 1"
definition historyTypeShellOutput :: int where "historyTypeShellOutput = 2"
definition historyTypeLLMOutput :: int where "historyTypeLLMOutput = 3"

text \<open>
  \<^verbatim>\<open>Content\<close> is a pointer to a buffer that \<^verbatim>\<open>Add\<close> allocates for the block and
  that nothing else refers to, so the buffer is held in the block.
\<close>

record HistoryBuffer =
  Type :: int
  Content :: ShellBuffer

record ShellHistory =
  Blocks :: "HistoryBuffer list"

text \<open>\<^verbatim>\<open>util.HistoryBlock\<close>, with its fields \<^verbatim>\<open>Type\<close> and \<^verbatim>\<open>Content\<close>.\<close>

record HistoryBlock =
  BlockType :: int
  BlockContent :: string

definition NewShellHistory :: ShellHistory where
  "NewShellHistory = \<lparr>Blocks = []\<rparr>"

definition Add :: "ShellHistory \<Rightarrow> int \<Rightarrow> string \<Rightarrow> panic + ShellHistory" where
  "Add this historyType block =
    (case Write NewShellBuffer block of
       Inl e \<Rightarrow> Inl e
     | Inr buf \<Rightarrow>
         Inr (this\<lparr>Blocks := Blocks this @ [\<lparr>Type = historyType, Content = buf\<rparr>]\<rparr>))"

definition Append :: "ShellHistory \<Rightarrow> int \<Rightarrow> string \<Rightarrow> panic + ShellHistory" where
  "Append this historyType data =
    (if 0 < length (Blocks this) \<and> Type (last (Blocks this)) = historyType then
       (case Write (Content (last (Blocks this))) data of
          Inl e \<Rightarrow> Inl e
        | Inr c \<Rightarrow>
            Inr (this\<lparr>Blocks := butlast (Blocks this) @ [(last (Blocks this))\<lparr>Content := c\<rparr>]\<rparr>))
     else Add this historyType data)"

definition NewBlock :: "ShellHistory \<Rightarrow> panic + ShellHistory" where
  "NewBlock this =
    (if 0 < length (Blocks this) then Add this (Type (last (Blocks this))) []
     else Inr this)"

definition truncateLength :: nat where
  "truncateLength = 512"

text \<open>
  The first loop of \<^verbatim>\<open>GetLastNBytes\<close>,
  \<^verbatim>\<open>for i := len(this.Blocks) - 1; i >= 0 && numBytes > 0; i--\<close>. The counter of
  the model is \<open>i + 1\<close>; \<open>blocks\<close> is the slice collected so far.
\<close>

fun collectLoop ::
    "HistoryBuffer list \<Rightarrow> nat \<Rightarrow> int \<Rightarrow> HistoryBlock list \<Rightarrow> HistoryBlock list" where
  "collectLoop bs 0 numBytes blocks = blocks"
| "collectLoop bs (Suc i) numBytes blocks =
    (if 0 < numBytes then
       let block = bs ! i;
           content = String (Content block);
           content = (if truncateLength < length content
                      then take truncateLength content else content)
       in if numBytes < int (length content) then blocks
          else collectLoop bs i (numBytes - int (length content))
                 (blocks @ [\<lparr>BlockType = Type block, BlockContent = content\<rparr>])
     else blocks)"

text \<open>
  The second loop, \<^verbatim>\<open>for i := len(blocks)/2 - 1; i >= 0; i--\<close>, which swaps
  \<^verbatim>\<open>blocks[i]\<close> and \<^verbatim>\<open>blocks[opp]\<close>. The counter of the model is \<open>i + 1\<close>.
\<close>

fun reverseLoop :: "'a list \<Rightarrow> nat \<Rightarrow> 'a list" where
  "reverseLoop blocks 0 = blocks"
| "reverseLoop blocks (Suc i) =
    (let opp = length blocks - 1 - i
     in reverseLoop (blocks[i := blocks ! opp, opp := blocks ! i]) i)"

definition GetLastNBytes :: "ShellHistory \<Rightarrow> int \<Rightarrow> HistoryBlock list" where
  "GetLastNBytes this numBytes =
    (let blocks = collectLoop (Blocks this) (length (Blocks this)) numBytes []
     in reverseLoop blocks (length blocks div 2))"

text \<open>\<^verbatim>\<open>HistoryBlocksToString\<close>: the contents, joined by newlines.\<close>

fun HistoryBlocksToString :: "HistoryBlock list \<Rightarrow> string" where
  "HistoryBlocksToString [] = []"
| "HistoryBlocksToString [block] = BlockContent block"
| "HistoryBlocksToString (block # blocks) =
     BlockContent block @ [CHR 0x0A] @ HistoryBlocksToString blocks"

text \<open>
  What \<^verbatim>\<open>GetLastNBytes\<close> is to return for a block it keeps: the type of the block
  and its content, cut to the cap. The total length of a list of blocks.
\<close>

definition asBlock :: "HistoryBuffer \<Rightarrow> HistoryBlock" where
  "asBlock b = \<lparr>BlockType = Type b, BlockContent = take truncateLength (String (Content b))\<rparr>"

definition totalLength :: "HistoryBlock list \<Rightarrow> int" where
  "totalLength blocks = int (sum_list (map (\<lambda>b. length (BlockContent b)) blocks))"

text \<open>A history for examples: the output \<open>hello\<close> and the input \<open>ls\<close>.\<close>

definition historyExample :: ShellHistory where
  "historyExample =
    \<lparr>Blocks = [\<lparr>Type = historyTypeShellOutput,
                 Content = \<lparr>buffer = [0x68, 0x65, 0x6C, 0x6C, 0x6F], cursor = 5\<rparr>\<rparr>,
               \<lparr>Type = historyTypeShellInput,
                 Content = \<lparr>buffer = [0x6C, 0x73], cursor = 2\<rparr>\<rparr>]\<rparr>"

section \<open>The shell multiplexer\<close>

definition stateNormal :: int where "stateNormal = 0"
definition stateShell :: int where "stateShell = 1"
definition statePrompting :: int where "statePrompting = 2"

record AutosuggestResult =
  Command' :: string
  Suggestion :: string

text \<open>
  \<^verbatim>\<open>util.CompletionRequest\<close> without its context. The temperature, a floating
  point constant, is kept as the literal of the source.
\<close>

record CompletionRequest =
  Prompt' :: string
  Model :: string
  MaxTokens :: int
  Temperature :: string
  HistoryBlocks :: "HistoryBlock list"

definition BestCompletionModel :: string where
  "BestCompletionModel = ''gpt-3.5-turbo''"

definition BestAutosuggestModel :: string where
  "BestAutosuggestModel = ''text-davinci-003''"

text \<open>
  What the multiplexer and its background task do to the outside, in the order in
  which they do it: a \<^verbatim>\<open>Write\<close> to the parent terminal or to the child's PTY, a
  call of the client's \<^verbatim>\<open>CompletionStream\<close> (with what the client wrote to
  \<^verbatim>\<open>PromptAnswerWriter\<close> until the call returned), a call of the stored
  \<^verbatim>\<open>AutosuggestCancel\<close>, the \<^verbatim>\<open>go RequestCancelableAutosuggest(...)\<close> statement
  (delay in milliseconds, command, history text), \<^verbatim>\<open>Butterfish.Cancel()\<close>, and
  for the task its \<^verbatim>\<open>time.Sleep\<close>, its call of \<^verbatim>\<open>Completion\<close> and its send on
  the autosuggest channel. Log output is left out.
\<close>

datatype event =
    ParentOut string
  | ChildIn string
  | CompletionStream CompletionRequest string
  | CallAutosuggestCancel
  | GoRequestCancelableAutosuggest nat string string
  | ButterfishCancel
  | Sleep nat
  | Completion CompletionRequest
  | AutosuggestChanSend AutosuggestResult

text \<open>
  The fields of \<^verbatim>\<open>ShellState\<close> that the multiplexer reads and writes.
  \<^verbatim>\<open>Command\<close> is a pointer that \<^verbatim>\<open>ShellMultiplexer\<close> leaves nil. A style is its
  \<^verbatim>\<open>Render\<close> function; \<open>QuestionStyle\<close> is
  \<^verbatim>\<open>Butterfish.Config.Styles.Question\<close>. \<open>LLMCompletionStream\<close> is the
  \<^verbatim>\<open>CompletionStream\<close> of \<^verbatim>\<open>Butterfish.LLMClient\<close>: for a request, what it writes
  to the writer, the output it returns and whether it returns an error. The
  writers and channels are replaced by \<open>Effects\<close>, the events so far.
\<close>

record ShellState =
  State :: int
  History :: ShellHistory
  Prompt :: string
  Command :: "ShellBuffer option"
  LastAutosuggest :: string
  AutosuggestCancel :: bool
  PromptStyle :: "string \<Rightarrow> string"
  QuestionStyle :: "string \<Rightarrow> string"
  AutosuggestStyle :: "string \<Rightarrow> string"
  LLMCompletionStream :: "CompletionRequest \<Rightarrow> string \<times> string \<times> bool"
  Effects :: "event list"

definition emit :: "event list \<Rightarrow> ShellState \<Rightarrow> ShellState" where
  "emit es this = this\<lparr>Effects := Effects this @ es\<rparr>"

definition cursorLeft :: string where
  "cursorLeft = [CHR 0x1B, CHR 0x5B, CHR 0x44]"

definition autosuggestDelay :: nat where
  "autosuggestDelay = 100"

text \<open>
  \<^verbatim>\<open>unicode.IsUpper\<close> on \<^verbatim>\<open>rune(data[0])\<close>, a value below 256, where Go reads
  its Latin-1 table: the letters A to Z, and U+00C0 to U+00DE without the
  multiplication sign U+00D7.
\<close>

definition IsUpper :: "nat \<Rightarrow> bool" where
  "IsUpper r = ((0x41 \<le> r \<and> r \<le> 0x5A) \<or> (0xC0 \<le> r \<and> r \<le> 0xD6)
                \<or> (0xD8 \<le> r \<and> r \<le> 0xDE))"

text \<open>\<^verbatim>\<open>bytes.HasPrefix(s, prefix)\<close> and \<^verbatim>\<open>strings.HasPrefix(s, prefix)\<close>.\<close>

definition HasPrefix :: "string \<Rightarrow> string \<Rightarrow> bool" where
  "HasPrefix s pre = (length pre \<le> length s \<and> take (length pre) s = pre)"

text \<open>
  Methods of \<^verbatim>\<open>*ShellBuffer\<close> on a pointer that may be nil. \<^verbatim>\<open>String\<close> reads
  \<^verbatim>\<open>this.buffer\<close> at once. \<^verbatim>\<open>Write\<close> returns before it touches the receiver when
  the data, or what \<^verbatim>\<open>stripANSI\<close> leaves of it, is empty.
\<close>

definition StringPtr :: "ShellBuffer option \<Rightarrow> panic + string" where
  "StringPtr p = (case p of None \<Rightarrow> Inl NilDeref | Some this \<Rightarrow> Inr (String this))"

definition WritePtr :: "ShellBuffer option \<Rightarrow> string \<Rightarrow> panic + ShellBuffer option" where
  "WritePtr p data =
    (case p of
       None \<Rightarrow> if length data = 0 \<or> length (stripANSI data) = 0 then Inr None
               else Inl NilDeref
     | Some this \<Rightarrow> (case Write this data of Inl e \<Rightarrow> Inl e | Inr b \<Rightarrow> Inr (Some b)))"

definition ClearAutosuggest :: "ShellState \<Rightarrow> ShellState" where
  "ClearAutosuggest this =
    (if LastAutosuggest this = [] then this
     else (emit (replicate (length (LastAutosuggest this)) (ParentOut '' '')
                 @ replicate (length (LastAutosuggest this)) (ParentOut cursorLeft)) this)
            \<lparr>LastAutosuggest := []\<rparr>)"

text \<open>
  \<^verbatim>\<open>RequestAutosuggest\<close>. The arguments of the \<^verbatim>\<open>go\<close> statement are evaluated
  by the caller, so \<^verbatim>\<open>this.Command.String()\<close> panics here when \<^verbatim>\<open>Command\<close> is
  nil.
\<close>

definition RequestAutosuggest :: "ShellState \<Rightarrow> bool \<Rightarrow> ShellState \<times> panic option" where
  "RequestAutosuggest this noDelay =
    (let s1 = (if AutosuggestCancel this then emit [CallAutosuggestCancel] this else this);
         s2 = s1\<lparr>AutosuggestCancel := True\<rparr>;
         historyBlocks = HistoryBlocksToString (GetLastNBytes (History s2) 2000);
         delay = (if noDelay then 0 else autosuggestDelay)
     in case StringPtr (Command s2) of
          Inl e \<Rightarrow> (s2, Some e)
        | Inr command \<Rightarrow>
            (emit [GoRequestCancelableAutosuggest delay command historyBlocks] s2, None))"

definition RefreshAutosuggest :: "ShellState \<Rightarrow> string \<Rightarrow> ShellState \<times> panic option" where
  "RefreshAutosuggest this newData =
    (if HasPrefix (LastAutosuggest this) newData
     then (this\<lparr>LastAutosuggest := drop (length newData) (LastAutosuggest this)\<rparr>, None)
     else let s1 = ClearAutosuggest this
          in if State s1 = stateShell then RequestAutosuggest s1 False else (s1, None))"

definition hasCarriageReturn :: "string \<Rightarrow> bool" where
  "hasCarriageReturn data = (CHR 0x0D \<in> set data)"

text \<open>The case \<^verbatim>\<open>stateNormal\<close> of \<^verbatim>\<open>InputFromParent\<close>.\<close>

definition InputNormal :: "ShellState \<Rightarrow> string \<Rightarrow> ShellState \<times> panic option" where
  "InputNormal this data =
    (if data = [] then (this, Some IndexRange)
     else if IsUpper (byte (data ! 0)) then
       (let s1 = this\<lparr>State := statePrompting, Prompt := data\<rparr>
        in (emit [ParentOut (PromptStyle s1 (Prompt s1))] s1, None))
     else if hasCarriageReturn data then (emit [ChildIn data] this, None)
     else if data ! 0 = CHR 0x09 then
       (if LastAutosuggest this \<noteq> [] then (emit [ChildIn (LastAutosuggest this)] this, None)
        else (emit [ChildIn data] this, None))
     else
       (let s1 = this\<lparr>State := stateShell\<rparr>
        in case NewBlock (History s1) of
             Inl e \<Rightarrow> (s1, Some e)
           | Inr h \<Rightarrow>
              (let s2 = emit [ChildIn data] (s1\<lparr>History := h\<rparr>)
               in case Write NewShellBuffer data of
                    Inl e \<Rightarrow> (s2\<lparr>Command := Some NewShellBuffer\<rparr>, Some e)
                  | Inr c \<Rightarrow> (s2\<lparr>Command := Some c\<rparr>, None))))"

text \<open>
  The case \<^verbatim>\<open>statePrompting\<close>. \<^verbatim>\<open>bytes.Index(data, "\r")\<close> is the length of the
  part before the first carriage return.
\<close>

definition InputPrompting :: "ShellState \<Rightarrow> string \<Rightarrow> ShellState \<times> panic option" where
  "InputPrompting this data =
    (let toAdd = (if hasCarriageReturn data
                  then take (length (takeWhile (\<lambda>c. c \<noteq> CHR 0x0D) data)) data else data);
         s1 = (if hasCarriageReturn data then this\<lparr>State := stateNormal\<rparr> else this);
         s2 = s1\<lparr>Prompt := Prompt s1 @ toAdd\<rparr>;
         s3 = emit [ParentOut (QuestionStyle s2 toAdd)] s2
     in if State s3 = stateNormal then
          (let s4 = emit [ParentOut [CHR 0x0A, CHR 0x0D]] s3;
               historyBlocks = GetLastNBytes (History s4) 3000;
               request = \<lparr>Prompt' = Prompt s4, Model = BestCompletionModel, MaxTokens = 512,
                          Temperature = ''0.7'', HistoryBlocks = historyBlocks\<rparr>;
               (written, output, err) = LLMCompletionStream s4 request;
               s5 = emit [CompletionStream request written] s4
           in case Add (History s5) historyTypePrompt (Prompt s5) of
                Inl e \<Rightarrow> (s5, Some e)
              | Inr h1 \<Rightarrow>
                 (case Add h1 historyTypeLLMOutput output of
                    Inl e \<Rightarrow> (s5\<lparr>History := h1\<rparr>, Some e)
                  | Inr h2 \<Rightarrow>
                     (let s6 = emit [ChildIn [CHR 0x0A]] (s5\<lparr>History := h2\<rparr>);
                          s7 = s6\<lparr>Prompt := []\<rparr>
                      in RequestAutosuggest s7 True)))
        else (s3, None))"

text \<open>The case \<^verbatim>\<open>stateShell\<close>.\<close>

definition InputShell :: "ShellState \<Rightarrow> string \<Rightarrow> ShellState \<times> panic option" where
  "InputShell this data =
    (if hasCarriageReturn data then
       (let s1 = ClearAutosuggest this;
            s2 = emit [ChildIn data] (s1\<lparr>State := stateNormal\<rparr>);
            s3 = s2\<lparr>Command := Some NewShellBuffer\<rparr>
        in case NewBlock (History s3) of
             Inl e \<Rightarrow> (s3, Some e)
           | Inr h \<Rightarrow> (s3\<lparr>History := h\<rparr>, None))
     else if data = [] then (this, Some IndexRange)
     else if data ! 0 = CHR 0x09 then
       (if LastAutosuggest this \<noteq> [] then (emit [ChildIn (LastAutosuggest this)] this, None)
        else (emit [ChildIn data] this, None))
     else
       (let s1 = emit [ChildIn data] this
        in case WritePtr (Command s1) data of
             Inl e \<Rightarrow> (s1, Some e)
           | Inr c \<Rightarrow> RefreshAutosuggest (s1\<lparr>Command := c\<rparr>) data))"

definition InputFromParent :: "ShellState \<Rightarrow> string \<Rightarrow> ShellState \<times> panic option" where
  "InputFromParent this data =
    (if State this = stateNormal then InputNormal this data
     else if State this = statePrompting then InputPrompting this data
     else if State this = stateShell then InputShell this data
     else (this, Some UnknownState))"

text \<open>
  One round of the loop of \<^verbatim>\<open>Mux\<close>: what \<^verbatim>\<open>select\<close> received, and whether the
  loop goes on, returns or panics. \<open>None\<close> is the nil message of a closed reader.
\<close>

datatype message =
    Done
  | AutosuggestMsg AutosuggestResult
  | ChildOutMsg "string option"
  | ParentInMsg "string option"

datatype flow = Continue | Return | Panics panic

definition MuxAutosuggest :: "ShellState \<Rightarrow> AutosuggestResult \<Rightarrow> ShellState \<times> flow" where
  "MuxAutosuggest this result =
    (case StringPtr (Command this) of
       Inl e \<Rightarrow> (this, Panics e)
     | Inr command \<Rightarrow>
        if Command' result \<noteq> command \<or> Suggestion result = [] then (this, Continue)
        else if CHR 0x0A \<in> set (Suggestion result) then (this, Continue)
        else if Suggestion result = LastAutosuggest this then (this, Continue)
        else
          (let s1 = this\<lparr>LastAutosuggest := Suggestion result\<rparr>
           in if Command' result \<noteq> [] \<and> \<not> HasPrefix (Suggestion result) (Command' result)
              then (s1, Continue)
              else
                (let cmdLen = length command in
                 if length (Suggestion result) < cmdLen then (s1, Panics SliceBounds)
                 else
                   (let suggToAdd = drop cmdLen (Suggestion result);
                        s2 = s1\<lparr>LastAutosuggest := suggToAdd\<rparr>;
                        rendered = AutosuggestStyle s2 suggToAdd
                    in (emit (ParentOut rendered
                              # replicate (length (Suggestion result) - cmdLen)
                                  (ParentOut cursorLeft)) s2,
                        Continue)))))"

definition MuxStep :: "ShellState \<Rightarrow> message \<Rightarrow> ShellState \<times> flow" where
  "MuxStep this msg =
    (case msg of
       Done \<Rightarrow> (this, Return)
     | AutosuggestMsg result \<Rightarrow> MuxAutosuggest this result
     | ChildOutMsg None \<Rightarrow> (emit [ButterfishCancel] this, Return)
     | ChildOutMsg (Some data) \<Rightarrow>
        (case Append (History this) historyTypeShellOutput data of
           Inl e \<Rightarrow> (this, Panics e)
         | Inr h \<Rightarrow> (emit [ParentOut data] (this\<lparr>History := h\<rparr>), Continue))
     | ParentInMsg None \<Rightarrow> (emit [ButterfishCancel] this, Return)
     | ParentInMsg (Some data) \<Rightarrow>
        (case InputFromParent this data of
           (s, Some e) \<Rightarrow> (s, Panics e)
         | (s, None) \<Rightarrow> (s, Continue)))"

text \<open>
  The state \<^verbatim>\<open>ShellMultiplexer\<close> starts \<^verbatim>\<open>Mux\<close> with, for given styles and a given
  client: \<^verbatim>\<open>PromptStyle\<close> is \<^verbatim>\<open>Config.Styles.Question\<close> and \<^verbatim>\<open>AutosuggestStyle\<close> is
  \<^verbatim>\<open>Config.Styles.Grey\<close>.
\<close>

definition initialState ::
    "(string \<Rightarrow> string) \<Rightarrow> (string \<Rightarrow> string)
      \<Rightarrow> (CompletionRequest \<Rightarrow> string \<times> string \<times> bool) \<Rightarrow> ShellState" where
  "initialState question grey llm =
    \<lparr>State = stateNormal, History = NewShellHistory, Prompt = [], Command = None,
     LastAutosuggest = [], AutosuggestCancel = False, PromptStyle = question,
     QuestionStyle = question, AutosuggestStyle = grey, LLMCompletionStream = llm,
     Effects = []\<rparr>"

section \<open>The autosuggest task\<close>

definition quotes3 :: string where
  "quotes3 = [CHR 0x27, CHR 0x27, CHR 0x27]"

text \<open>The two \<^verbatim>\<open>fmt.Sprintf\<close> templates of \<^verbatim>\<open>RequestCancelableAutosuggest\<close>.\<close>

definition autosuggestPrompt :: "string \<Rightarrow> string \<Rightarrow> string" where
  "autosuggestPrompt currCommand historyText =
    (if length currCommand = 0 then
       ''The user is using a Unix shell but hasn'' @ [CHR 0x27] @ ''t yet entered anything. ''
       @ ''Suggest a unix command based on previous assistant output like an example. ''
       @ ''If the user has entered a command recently which failed, suggest a fixed ''
       @ ''version of that command. Respond with only the shell command, do not add ''
       @ ''comments or quotations. Here is the recent history:'' @ [CHR 0x0A]
       @ quotes3 @ [CHR 0x0A] @ historyText @ [CHR 0x0A] @ quotes3
     else
       ''The user is asking for an autocomplete suggestion for this Unix shell command, ''
       @ ''respond with only the suggested command, which should include the original ''
       @ ''command text, do not add comments or quotations. Here is some recent context ''
       @ ''and history:'' @ [CHR 0x0A]
       @ quotes3 @ [CHR 0x0A] @ historyText @ [CHR 0x0A] @ quotes3 @ ''.'' @ [CHR 0x0A]
       @ ''If a command has resulted in an error, avoid that. This is the start of the ''
       @ ''command: '' @ [CHR 0x27] @ currCommand @ [CHR 0x27] @ ''.'')"

definition autosuggestRequest :: "string \<Rightarrow> string \<Rightarrow> CompletionRequest" where
  "autosuggestRequest currCommand historyText =
    \<lparr>Prompt' = autosuggestPrompt currCommand historyText, Model = BestAutosuggestModel,
     MaxTokens = 256, Temperature = ''0.7'', HistoryBlocks = []\<rparr>"

text \<open>
  \<^verbatim>\<open>RequestCancelableAutosuggest\<close>, the body of the background task, as the
  events it produces. \<open>ctxErr\<close> says whether \<^verbatim>\<open>ctx.Err()\<close> is non-nil when the task
  reads it; \<open>completion\<close> is the client's \<^verbatim>\<open>Completion\<close>, giving an
  error (\<open>Inl\<close>) or the output.
\<close>

definition RequestCancelableAutosuggest ::
    "bool \<Rightarrow> nat \<Rightarrow> string \<Rightarrow> string \<Rightarrow> (CompletionRequest \<Rightarrow> string + string)
      \<Rightarrow> event list" where
  "RequestCancelableAutosuggest ctxErr delay currCommand historyText completion =
    (if 0 < delay then [Sleep delay] else [])
    @ (if ctxErr then []
       else
         (let request = autosuggestRequest currCommand historyText
          in Completion request
             # (case completion request of
                  Inl err \<Rightarrow> []
                | Inr output \<Rightarrow>
                    [AutosuggestChanSend \<lparr>Command' = currCommand, Suggestion = output\<rparr>])))"

text \<open>Whether an event reaches the multiplexer or the user.\<close>

fun visible :: "event \<Rightarrow> bool" where
  "visible (AutosuggestChanSend r) = True"
| "visible (ParentOut d) = True"
| "visible (ChildIn d) = True"
| "visible e = False"

text \<open>
  The loop of \<^verbatim>\<open>Mux\<close> over the messages \<^verbatim>\<open>select\<close> receives, in the order in
  which it receives them.
\<close>

fun MuxRun :: "ShellState \<Rightarrow> message list \<Rightarrow> ShellState \<times> flow" where
  "MuxRun this [] = (this, Continue)"
| "MuxRun this (msg # msgs) =
    (case MuxStep this msg of
       (s, Continue) \<Rightarrow> MuxRun s msgs
     | (s, f) \<Rightarrow> (s, f))"

text \<open>A style that adds nothing and a client that answers nothing, for examples.\<close>

definition plainStyle :: "string \<Rightarrow> string" where
  "plainStyle str = str"

definition silentLLM :: "CompletionRequest \<Rightarrow> string \<times> string \<times> bool" where
  "silentLLM request = ([], [], False)"

fun isChildIn :: "event \<Rightarrow> bool" where
  "isChildIn (ChildIn d) = True"
| "isChildIn e = False"

fun isParentOut :: "event \<Rightarrow> bool" where
  "isParentOut (ParentOut d) = True"
| "isParentOut e = False"

fun isRequest :: "event \<Rightarrow> bool" where
  "isRequest (GoRequestCancelableAutosuggest d c h) = True"
| "isRequest e = False"

text \<open>
  The request \<^verbatim>\<open>InputFromParent\<close> builds when a carriage return in \<open>data\<close>
  submits the prompt.
\<close>

definition promptRequest :: "ShellState \<Rightarrow> string \<Rightarrow> CompletionRequest" where
  "promptRequest this data =
    \<lparr>Prompt' = Prompt this @ takeWhile (\<lambda>c. c \<noteq> CHR 0x0D) data, Model = BestCompletionModel,
     MaxTokens = 512, Temperature = ''0.7'',
     HistoryBlocks = GetLastNBytes (History this) 3000\<rparr>"

text \<open>
  Two states for examples: the user has typed \<open>H\<close> of a prompt; the user has typed
  \<open>ls\<close> and the suggestion \<open>ls -la\<close> has been rendered.
\<close>

definition promptingExample :: ShellState where
  "promptingExample =
    (initialState plainStyle plainStyle silentLLM)\<lparr>State := statePrompting, Prompt := ''H''\<rparr>"

definition shellExample :: ShellState where
  "shellExample =
    (initialState plainStyle plainStyle silentLLM)
      \<lparr>State := stateShell, Command := Some \<lparr>buffer = [0x6C, 0x73], cursor = 2\<rparr>,
       LastAutosuggest := '' -la''\<rparr>"

definition canceledCompletion :: "CompletionRequest \<Rightarrow> string + string" where
  "canceledCompletion request = Inl ''context canceled''"

text \<open>In the state Shell there is a command buffer.\<close>

definition shell_has_command :: "ShellState \<Rightarrow> bool" where
  "shell_has_command this = (State this \<noteq> stateShell \<or> Command this \<noteq> None)"

section \<open>The edits of the line buffer, as the specification words them\<close>

text \<open>
  \<^verbatim>\<open>unicode.IsControl\<close>: the runes U+0000 to U+001F and U+007F to U+009F. The
  runes the amended claim C2 speaks about: backspace and delete, newline and
  carriage return, and every rune that is not a control character.
\<close>

definition isControl :: "rune \<Rightarrow> bool" where
  "isControl r = ((0 \<le> r \<and> r < 0x20) \<or> (0x7F \<le> r \<and> r < 0xA0))"

definition editable :: "rune \<Rightarrow> bool" where
  "editable r = (r = 0x08 \<or> r = 0x7F \<or> r = 0x0A \<or> r = 0x0D \<or> \<not> isControl r)"

text \<open>
  Deleting the rune before the cursor, inserting a rune at the cursor, and the
  edit a rune stands for.
\<close>

definition deleteBefore :: "ShellBuffer \<Rightarrow> ShellBuffer" where
  "deleteBefore this =
    (if cursor this = 0 \<or> buffer this = [] then this
     else this\<lparr>buffer := take (nat (cursor this - 1)) (buffer this)
                          @ drop (nat (cursor this)) (buffer this),
                cursor := cursor this - 1\<rparr>)"

definition insertAt :: "ShellBuffer \<Rightarrow> rune \<Rightarrow> ShellBuffer" where
  "insertAt this r =
    this\<lparr>buffer := take (nat (cursor this)) (buffer this) @ [r]
                     @ drop (nat (cursor this)) (buffer this),
         cursor := cursor this + 1\<rparr>"

definition editRune :: "ShellBuffer \<Rightarrow> rune \<Rightarrow> ShellBuffer" where
  "editRune this r = (if r = 0x08 \<or> r = 0x7F then deleteBefore this else insertAt this r)"

text \<open>
  A rune that starts no escape sequence; a rune that is also neither backspace nor
  delete; a string that is valid UTF-8 (decoding and encoding give it back) and
  holds such runes only; a buffer whose cursor is at its end.
\<close>

definition noEscape :: "rune \<Rightarrow> bool" where
  "noEscape r = (r \<noteq> 0x1B \<and> r \<noteq> 0x9B)"

definition plainRune :: "rune \<Rightarrow> bool" where
  "plainRune r = (r \<noteq> 0x08 \<and> r \<noteq> 0x7F \<and> noEscape r)"

definition plain :: "string \<Rightarrow> bool" where
  "plain s = (string_of_runes (runes s) = s \<and> list_all plainRune (runes s))"

definition at_end :: "ShellBuffer \<Rightarrow> bool" where
  "at_end this = (cursor this = int (length (buffer this)))"

text \<open>\<^verbatim>\<open>Add(t1, a)\<close> followed by \<^verbatim>\<open>Append(t2, b)\<close>.\<close>

definition AddThenAppend ::
    "ShellHistory \<Rightarrow> int \<Rightarrow> string \<Rightarrow> int \<Rightarrow> string \<Rightarrow> panic + ShellHistory" where
  "AddThenAppend this t1 a t2 b =
    (case Add this t1 a of Inl e \<Rightarrow> Inl e | Inr h \<Rightarrow> Append h t2 b)"

section \<open>Properties\<close>

subsection \<open>The cursor stays inside the buffer\<close>

lemma returns_ok_case:
  "returns_ok m = (case m of Inl e \<Rightarrow> False | Inr a \<Rightarrow> cursor_ok a)"
  by (cases m) auto

lemma WriteRune_ok: "cursor_ok this \<Longrightarrow> returns_ok (WriteRune this r)"
  by (auto simp: cursor_ok_def WriteRune_def)

lemma WriteLoop_ok: "cursor_ok this \<Longrightarrow> returns_ok (WriteLoop this r)"
  using WriteRune_ok [of this r] by (auto simp: WriteLoop_def cursor_ok_def)

lemma foldP_invariant:
  assumes step: "\<And>a x. P a \<Longrightarrow> (case f a x of Inl e \<Rightarrow> False | Inr a' \<Rightarrow> P a')"
  shows "P a \<Longrightarrow> (case foldP f a xs of Inl e \<Rightarrow> False | Inr a' \<Rightarrow> P a')"
proof (induction xs arbitrary: a)
  case Nil
  then show ?case by simp
next
  case (Cons x xs)
  from step [OF Cons.prems, of x] obtain a' where a': "f a x = Inr a'" "P a'"
    by (cases "f a x") auto
  with Cons.IH [OF a'(2)] show ?case by simp
qed

lemma Write_ok: "cursor_ok this \<Longrightarrow> returns_ok (Write this data)"
proof (induction this data rule: Write.induct)
  case (1 this data)
  have loop: "returns_ok (foldP WriteLoop this (runes (stripANSI data)))"
    unfolding returns_ok_case
    by (rule foldP_invariant [where P = cursor_ok])
       (use WriteLoop_ok "1.prems" in \<open>auto simp: returns_ok_case\<close>)
  have l: "cursor_ok (this\<lparr>cursor := if 0 < cursor this then cursor this - 1
                                     else cursor this\<rparr>)"
    using "1.prems" by (auto simp: cursor_ok_def)
  have r: "cursor_ok (this\<lparr>cursor := if cursor this < int (length (buffer this))
                                     then cursor this + 1 else cursor this\<rparr>)"
    using "1.prems" by (auto simp: cursor_ok_def)
  show ?case
    apply (subst Write.simps)
    using "1.prems" loop "1.IH"(1) [OF _ refl _ _ l] "1.IH"(2) [OF _ refl _ _ _ r]
    by (auto simp: Let_def)
qed

lemma apply_op_ok: "cursor_ok this \<Longrightarrow> returns_ok (apply_op this x)"
  by (cases x) (auto simp: Write_ok WriteRune_ok)

lemma run_ops_ok: "returns_ok (foldP apply_op NewShellBuffer ops)"
  unfolding returns_ok_case
  by (rule foldP_invariant [where P = cursor_ok])
     (use apply_op_ok in \<open>auto simp: returns_ok_case cursor_ok_def NewShellBuffer_def\<close>)

text \<open>
  Claim C3. Start from the empty buffer of \<^verbatim>\<open>NewShellBuffer\<close> and apply any
  sequence of \<^verbatim>\<open>Write\<close> and \<^verbatim>\<open>WriteRune\<close> calls. After each operation of the
  sequence (after the first \<open>n\<close> of them, for every \<open>n\<close>) the call has returned
  without a panic and the buffer it leaves satisfies
  \<open>0 \<le> cursor \<le> len(buffer)\<close>.
\<close>

theorem C3_cursor_within_buffer:
  "\<exists>this. foldP apply_op NewShellBuffer (take n ops) = Inr this
     \<and> 0 \<le> cursor this \<and> cursor this \<le> int (length (buffer this))"
proof (cases "foldP apply_op NewShellBuffer (take n ops)")
  case (Inl e)
  with run_ops_ok [of "take n ops"] show ?thesis by simp
next
  case (Inr this)
  with run_ops_ok [of "take n ops"] show ?thesis by (simp add: cursor_ok_def)
qed

subsection \<open>Fresh buffers never panic\<close>

lemma Write_returns: "cursor_ok this \<Longrightarrow> \<exists>b. Write this data = Inr b \<and> cursor_ok b"
  using Write_ok [of this data] by (cases "Write this data") auto

lemma cursor_ok_New: "cursor_ok NewShellBuffer"
  by (simp add: cursor_ok_def NewShellBuffer_def)

lemma Add_returns:
  "\<exists>b. Write NewShellBuffer block = Inr b \<and> cursor_ok b \<and>
       Add this historyType block
         = Inr (this\<lparr>Blocks := Blocks this @ [\<lparr>Type = historyType, Content = b\<rparr>]\<rparr>)"
  using Write_returns [OF cursor_ok_New, of block] by (auto simp: Add_def)

lemma Write_empty: "Write this [] = Inr this"
  by (subst Write.simps) simp

lemma NewBlock_returns: "\<exists>h. NewBlock this = Inr h"
  using Add_returns [of "[]" this] by (auto simp: NewBlock_def)

subsection \<open>Input in the state Normal\<close>

text \<open>
  Claim C1, as amended. A non-empty chunk arrives in the state Normal. If
  \<^verbatim>\<open>unicode.IsUpper\<close> holds of its first byte, the state becomes Prompting, the
  chunk becomes the prompt, it is written to the terminal in the prompt style,
  and nothing else happens: nothing is written to the child. If the first byte
  is \<open>!\<close>, the chunk is not taken as a prompt: it is written to the child, the
  state does not become Prompting and the prompt is unchanged.
\<close>

theorem C1_uppercase_starts_prompt:
  assumes "State this = stateNormal" and "data \<noteq> []"
  shows "(IsUpper (byte (data ! 0)) \<longrightarrow>
           InputFromParent this data =
             (this\<lparr>State := statePrompting, Prompt := data,
                   Effects := Effects this @ [ParentOut (PromptStyle this data)]\<rparr>, None))
       \<and> (data ! 0 = CHR ''!'' \<longrightarrow>
           State (fst (InputFromParent this data)) \<noteq> statePrompting
           \<and> Prompt (fst (InputFromParent this data)) = Prompt this
           \<and> Effects (fst (InputFromParent this data)) = Effects this @ [ChildIn data])"
proof (intro conjI impI)
  assume "IsUpper (byte (data ! 0))"
  with assms show "InputFromParent this data =
             (this\<lparr>State := statePrompting, Prompt := data,
                   Effects := Effects this @ [ParentOut (PromptStyle this data)]\<rparr>, None)"
    by (simp add: InputFromParent_def InputNormal_def Let_def emit_def)
next
  assume b: "data ! 0 = CHR ''!''"
  then have nu: "\<not> IsUpper (byte (data ! 0))" by (simp add: IsUpper_def)
  obtain h where h: "NewBlock (History this) = Inr h"
    using NewBlock_returns by blast
  obtain c where c: "Write NewShellBuffer data = Inr c"
    using Write_returns [OF cursor_ok_New] by blast
  have r: "InputFromParent this data =
      (if hasCarriageReturn data then (emit [ChildIn data] this, None)
       else ((emit [ChildIn data] (this\<lparr>State := stateShell, History := h\<rparr>))
               \<lparr>Command := Some c\<rparr>, None))"
    using assms b nu h c
    by (simp add: InputFromParent_def InputNormal_def Let_def)
  show "State (fst (InputFromParent this data)) \<noteq> statePrompting"
    using assms by (simp add: r emit_def stateNormal_def stateShell_def statePrompting_def)
  show "Prompt (fst (InputFromParent this data)) = Prompt this"
    by (simp add: r emit_def)
  show "Effects (fst (InputFromParent this data)) = Effects this @ [ChildIn data]"
    by (simp add: r emit_def)
qed

text \<open>
  The theorem at the chunks \<open>Hi\<close> and \<open>!ls\<close>, in the state the multiplexer starts
  in.
\<close>

theorem C1_witness:
  "State (initialState plainStyle plainStyle silentLLM) = stateNormal \<and> ''Hi'' \<noteq> []
   \<and> IsUpper (byte (''Hi'' ! 0))
   \<and> InputFromParent (initialState plainStyle plainStyle silentLLM) ''Hi'' =
       ((initialState plainStyle plainStyle silentLLM)\<lparr>State := statePrompting,
           Prompt := ''Hi'', Effects := [ParentOut ''Hi'']\<rparr>, None)
   \<and> ''!ls'' \<noteq> [] \<and> ''!ls'' ! 0 = CHR ''!''
   \<and> State (fst (InputFromParent (initialState plainStyle plainStyle silentLLM) ''!ls''))
        \<noteq> statePrompting
   \<and> Effects (fst (InputFromParent (initialState plainStyle plainStyle silentLLM) ''!ls''))
        = [ChildIn ''!ls'']"
proof -
  have a: "State (initialState plainStyle plainStyle silentLLM) = stateNormal"
    by (simp add: initialState_def)
  have b: "''Hi'' \<noteq> []" "''!ls'' \<noteq> []" by simp_all
  have c: "IsUpper (byte (''Hi'' ! 0))" by (simp add: IsUpper_def)
  have d: "''!ls'' ! 0 = CHR ''!''" by simp
  have e: "Effects (initialState plainStyle plainStyle silentLLM) = []"
    "PromptStyle (initialState plainStyle plainStyle silentLLM) = plainStyle"
    by (simp_all add: initialState_def)
  from C1_uppercase_starts_prompt [OF a b(1)] C1_uppercase_starts_prompt [OF a b(2)]
  show ?thesis using a b c d
    by (simp add: e plainStyle_def)
qed

text \<open>
  The claim as stated fails at the chunk \<open>!ls\<close>: in the state Normal its first
  byte is \<open>!\<close>, yet the state becomes Shell, not Prompting, and the chunk is
  written to the child.
\<close>

theorem C1_counterexample:
  "State (initialState plainStyle plainStyle silentLLM) = stateNormal
   \<and> ''!ls'' ! 0 = CHR ''!''
   \<and> State (fst (InputFromParent (initialState plainStyle plainStyle silentLLM) ''!ls''))
       = stateShell
   \<and> stateShell \<noteq> statePrompting
   \<and> Effects (fst (InputFromParent (initialState plainStyle plainStyle silentLLM) ''!ls''))
       = [ChildIn ''!ls'']"
  by code_simp

subsection \<open>The autosuggest task\<close>

text \<open>
  Claim C10. If the client's \<^verbatim>\<open>Completion\<close> returns an error for the request of
  the task (a cancellation is such an error), the task sends nothing on the
  autosuggest channel and writes nothing to the terminal or to the child: none of
  its events reaches the multiplexer or the user.
\<close>

theorem C10_failed_completion_sends_nothing:
  assumes "completion (autosuggestRequest currCommand historyText) = Inl err"
  shows "filter visible
           (RequestCancelableAutosuggest ctxErr delay currCommand historyText completion) = []"
  using assms by (simp add: RequestCancelableAutosuggest_def Let_def)

text \<open>The theorem for a client whose every call fails with \<open>context canceled\<close>.\<close>

theorem C10_witness:
  "canceledCompletion (autosuggestRequest ''ls'' []) = Inl ''context canceled''
   \<and> filter visible (RequestCancelableAutosuggest False 100 ''ls'' [] canceledCompletion) = []"
  using C10_failed_completion_sends_nothing
    [of canceledCompletion "''ls''" "[]" "''context canceled''" False 100]
  by (simp add: canceledCompletion_def)

subsection \<open>Reachable states\<close>

lemma ClearAutosuggest_fields [simp]:
  "State (ClearAutosuggest this) = State this"
  "Command (ClearAutosuggest this) = Command this"
  "History (ClearAutosuggest this) = History this"
  by (simp_all add: ClearAutosuggest_def emit_def)

lemma RequestAutosuggest_fields [simp]:
  "State (fst (RequestAutosuggest this d)) = State this"
  "Command (fst (RequestAutosuggest this d)) = Command this"
  by (simp_all add: RequestAutosuggest_def Let_def emit_def StringPtr_def split: option.splits)

lemma RefreshAutosuggest_fields [simp]:
  "State (fst (RefreshAutosuggest this d)) = State this"
  "Command (fst (RefreshAutosuggest this d)) = Command this"
  by (simp_all add: RefreshAutosuggest_def Let_def)

lemma InputNormal_keeps: "shell_has_command (fst (InputNormal this data))" if "shell_has_command this"
proof -
  obtain h where h: "NewBlock (History this) = Inr h"
    using NewBlock_returns by blast
  obtain c where c: "Write NewShellBuffer data = Inr c"
    using Write_returns [OF cursor_ok_New] by blast
  show ?thesis
    using that h c
    by (simp add: shell_has_command_def InputNormal_def Let_def emit_def
        stateNormal_def stateShell_def statePrompting_def)
qed

lemma InputPrompting_fields:
  "State (fst (InputPrompting this data))
     = (if hasCarriageReturn data then stateNormal else State this)"
  "Command (fst (InputPrompting this data)) = Command this"
  by (simp_all add: InputPrompting_def Let_def emit_def split: sum.splits prod.splits)

lemma InputShell_keeps: "shell_has_command (fst (InputShell this data))" if "shell_has_command this"
proof (cases "Command this")
  case None
  then show ?thesis
    using that
    by (simp add: shell_has_command_def InputShell_def Let_def emit_def WritePtr_def
        stateNormal_def stateShell_def split: sum.splits)
next
  case (Some b)
  then show ?thesis
    by (simp add: shell_has_command_def InputShell_def Let_def emit_def WritePtr_def
        split: sum.splits)
qed

lemma InputFromParent_keeps:
  "shell_has_command this \<Longrightarrow> shell_has_command (fst (InputFromParent this data))"
  using InputNormal_keeps [of this data] InputShell_keeps [of this data]
    InputPrompting_fields [of this data]
  by (auto simp: InputFromParent_def shell_has_command_def stateNormal_def stateShell_def)

lemma MuxAutosuggest_fields:
  "State (fst (MuxAutosuggest this result)) = State this"
  "Command (fst (MuxAutosuggest this result)) = Command this"
  by (simp_all add: MuxAutosuggest_def Let_def emit_def split: sum.splits)

lemma MuxStep_keeps:
  assumes "shell_has_command this"
  shows "shell_has_command (fst (MuxStep this msg))"
proof (cases msg)
  case Done
  with assms show ?thesis by (simp add: MuxStep_def)
next
  case (AutosuggestMsg result)
  with assms show ?thesis
    by (simp add: MuxStep_def shell_has_command_def MuxAutosuggest_fields)
next
  case (ChildOutMsg d)
  with assms show ?thesis
    by (cases d) (simp_all add: MuxStep_def shell_has_command_def emit_def split: sum.splits)
next
  case (ParentInMsg d)
  show ?thesis
  proof (cases d)
    case None
    with assms ParentInMsg show ?thesis
      by (simp add: MuxStep_def shell_has_command_def emit_def)
  next
    case (Some data)
    obtain s e where se: "InputFromParent this data = (s, e)"
      by (cases "InputFromParent this data")
    with InputFromParent_keeps [OF assms, of data] have "shell_has_command s" by simp
    with se ParentInMsg Some show ?thesis
      by (cases e) (simp_all add: MuxStep_def)
  qed
qed

lemma MuxRun_keeps:
  "shell_has_command this \<Longrightarrow> shell_has_command (fst (MuxRun this msgs))"
proof (induction msgs arbitrary: this)
  case Nil
  then show ?case by simp
next
  case (Cons msg msgs)
  obtain s f where sf: "MuxStep this msg = (s, f)" by (cases "MuxStep this msg")
  with MuxStep_keeps [OF Cons.prems, of msg] have "shell_has_command s" by simp
  with Cons.IH [of s] sf show ?case by (cases f) auto
qed

text \<open>
  Whatever messages the loop of \<^verbatim>\<open>Mux\<close> has received since
  \<^verbatim>\<open>ShellMultiplexer\<close> started it, in the state Shell the command buffer is not nil.
\<close>

lemma reachable_shell_has_command:
  "shell_has_command (fst (MuxRun (initialState question grey llm) msgs))"
  by (rule MuxRun_keeps) (simp add: shell_has_command_def initialState_def stateNormal_def stateShell_def)

subsection \<open>Submitting a prompt\<close>

lemma take_length_takeWhile: "take (length (takeWhile P xs)) xs = takeWhile P xs"
  by (induction xs) auto

lemma RequestAutosuggest_effects:
  "\<exists>tail. Effects (fst (RequestAutosuggest this noDelay)) = Effects this @ tail
      \<and> filter isChildIn tail = []"
  by (cases "Command this")
     (auto simp: RequestAutosuggest_def Let_def emit_def StringPtr_def)

text \<open>
  Claim C9. A chunk with a carriage return arrives in the state Prompting: the
  prompt is submitted. Whatever the client does, the events of this call are, in
  this order: the rest of the prompt and a line break written to the terminal,
  the call of \<^verbatim>\<open>CompletionStream\<close> with everything the client wrote to the answer
  writer until it returned, the write of the newline to the child, and then
  events among which there is no write to the child. So the newline is written
  to the child once, and after the streaming call has returned. This also holds
  when \<^verbatim>\<open>RequestAutosuggest\<close> panics afterwards on a nil command buffer.
\<close>

theorem C9_newline_after_completion:
  assumes "State this = statePrompting" and "hasCarriageReturn data"
  shows "\<exists>tail. Effects (fst (InputFromParent this data)) =
           Effects this
           @ [ParentOut (QuestionStyle this (takeWhile (\<lambda>c. c \<noteq> CHR 0x0D) data)),
              ParentOut [CHR 0x0A, CHR 0x0D],
              CompletionStream (promptRequest this data)
                (fst (LLMCompletionStream this (promptRequest this data))),
              ChildIn [CHR 0x0A]]
           @ tail
         \<and> filter isChildIn tail = []"
proof -
  let ?toAdd = "takeWhile (\<lambda>c. c \<noteq> CHR 0x0D) data"
  let ?req = "promptRequest this data"
  obtain written out err where llm: "LLMCompletionStream this ?req = (written, out, err)"
    by (cases "LLMCompletionStream this ?req") auto
  let ?s5 = "this\<lparr>State := stateNormal, Prompt := Prompt this @ ?toAdd,
                  Effects := Effects this @ [ParentOut (QuestionStyle this ?toAdd),
                     ParentOut [CHR 0x0A, CHR 0x0D], CompletionStream ?req written]\<rparr>"
  obtain b1 where h1: "Add (History this) historyTypePrompt (Prompt this @ ?toAdd)
      = Inr ((History this)\<lparr>Blocks := Blocks (History this) @ [\<lparr>Type = historyTypePrompt, Content = b1\<rparr>]\<rparr>)"
    using Add_returns by blast
  let ?h1 = "(History this)\<lparr>Blocks := Blocks (History this) @ [\<lparr>Type = historyTypePrompt, Content = b1\<rparr>]\<rparr>"
  obtain b2 where h2: "Add ?h1 historyTypeLLMOutput out
      = Inr (?h1\<lparr>Blocks := Blocks ?h1 @ [\<lparr>Type = historyTypeLLMOutput, Content = b2\<rparr>]\<rparr>)"
    using Add_returns by blast
  let ?h2 = "?h1\<lparr>Blocks := Blocks ?h1 @ [\<lparr>Type = historyTypeLLMOutput, Content = b2\<rparr>]\<rparr>"
  let ?s7 = "?s5\<lparr>History := ?h2, Effects := Effects ?s5 @ [ChildIn [CHR 0x0A]], Prompt := []\<rparr>"
  have r: "InputFromParent this data = RequestAutosuggest ?s7 True"
    using assms llm h1 h2
    by (simp add: InputFromParent_def InputPrompting_def Let_def emit_def
        take_length_takeWhile promptRequest_def stateNormal_def statePrompting_def)
  from RequestAutosuggest_effects [of ?s7 True] obtain tail where
    "Effects (fst (RequestAutosuggest ?s7 True)) = Effects ?s7 @ tail" "filter isChildIn tail = []"
    by blast
  then show ?thesis using llm by (intro exI [of _ tail]) (simp add: r)
qed

text \<open>The theorem where the prompt \<open>H\<close> is completed by \<open>i\<close> and a carriage return.\<close>

theorem C9_witness:
  "State promptingExample = statePrompting \<and> hasCarriageReturn (''i'' @ [CHR 0x0D])
   \<and> (\<exists>tail. Effects (fst (InputFromParent promptingExample (''i'' @ [CHR 0x0D]))) =
         [ParentOut ''i'', ParentOut [CHR 0x0A, CHR 0x0D],
          CompletionStream (promptRequest promptingExample (''i'' @ [CHR 0x0D])) [],
          ChildIn [CHR 0x0A]] @ tail
       \<and> filter isChildIn tail = [])"
proof -
  have a: "State promptingExample = statePrompting"
    by (simp add: promptingExample_def)
  have b: "hasCarriageReturn (''i'' @ [CHR 0x0D])"
    by (simp add: hasCarriageReturn_def)
  have c: "QuestionStyle promptingExample = plainStyle" "Effects promptingExample = []"
    "LLMCompletionStream promptingExample = silentLLM"
    by (simp_all add: promptingExample_def initialState_def)
  from C9_newline_after_completion [OF a b] show ?thesis
    using a b by (simp add: c plainStyle_def silentLLM_def)
qed

subsection \<open>Typing into a suggestion\<close>

lemma RequestAutosuggest_Some:
  "Command this = Some c \<Longrightarrow>
   RequestAutosuggest this noDelay =
     (this\<lparr>AutosuggestCancel := True,
           Effects := Effects this
             @ (if AutosuggestCancel this then [CallAutosuggestCancel] else [])
             @ [GoRequestCancelableAutosuggest (if noDelay then 0 else autosuggestDelay)
                  (String c) (HistoryBlocksToString (GetLastNBytes (History this) 2000))]\<rparr>,
      None)"
  by (simp add: RequestAutosuggest_def Let_def StringPtr_def emit_def)

text \<open>
  Claim C7. Let \<open>S\<close> be the stored suggestion. If the input is the first \<open>k\<close>
  bytes of \<open>S\<close>, \<^verbatim>\<open>RefreshAutosuggest\<close> leaves the state as it is but for the
  stored suggestion, which loses its first \<open>k\<close> bytes: no event happens, so no
  request is issued. If the input is not a prefix of \<open>S\<close>, in the state Shell
  (the only state in which \<^verbatim>\<open>InputFromParent\<close> calls the function; the command
  buffer is not nil there, see \<open>reachable_shell_has_command\<close>) the stored
  suggestion becomes empty and the last event is the start of a new request for
  the current command, with the delay \<^verbatim>\<open>autosuggestDelay\<close>.
\<close>

theorem C7_typing_into_suggestion:
  "(k \<le> length (LastAutosuggest this) \<longrightarrow>
      RefreshAutosuggest this (take k (LastAutosuggest this))
        = (this\<lparr>LastAutosuggest := drop k (LastAutosuggest this)\<rparr>, None))
   \<and> (\<not> HasPrefix (LastAutosuggest this) newData \<and> State this = stateShell
        \<and> Command this = Some c \<longrightarrow>
      snd (RefreshAutosuggest this newData) = None
      \<and> LastAutosuggest (fst (RefreshAutosuggest this newData)) = []
      \<and> (\<exists>pre. Effects (fst (RefreshAutosuggest this newData)) =
            Effects this @ pre
            @ [GoRequestCancelableAutosuggest autosuggestDelay (String c)
                 (HistoryBlocksToString (GetLastNBytes (History this) 2000))]
          \<and> filter isRequest pre = []))"
proof (intro conjI impI)
  assume "k \<le> length (LastAutosuggest this)"
  then show "RefreshAutosuggest this (take k (LastAutosuggest this))
        = (this\<lparr>LastAutosuggest := drop k (LastAutosuggest this)\<rparr>, None)"
    by (simp add: RefreshAutosuggest_def HasPrefix_def min_def)
next
  assume a: "\<not> HasPrefix (LastAutosuggest this) newData \<and> State this = stateShell
        \<and> Command this = Some c"
  let ?s1 = "ClearAutosuggest this"
  have s1: "State ?s1 = stateShell" "Command ?s1 = Some c" "History ?s1 = History this"
    "LastAutosuggest ?s1 = []"
    using a by (auto simp: ClearAutosuggest_def emit_def)
  have e1: "\<exists>pre. Effects ?s1 = Effects this @ pre \<and> filter isRequest pre = []"
    by (auto simp: ClearAutosuggest_def emit_def)
  have r: "RefreshAutosuggest this newData = RequestAutosuggest ?s1 False"
    using a s1 by (simp add: RefreshAutosuggest_def Let_def)
  from e1 obtain pre where pre: "Effects ?s1 = Effects this @ pre" "filter isRequest pre = []"
    by blast
  have r': "RefreshAutosuggest this newData =
     (?s1\<lparr>AutosuggestCancel := True,
           Effects := Effects this @ pre
             @ (if AutosuggestCancel ?s1 then [CallAutosuggestCancel] else [])
             @ [GoRequestCancelableAutosuggest autosuggestDelay
                  (String c) (HistoryBlocksToString (GetLastNBytes (History this) 2000))]\<rparr>,
      None)"
    using s1 pre by (simp add: r RequestAutosuggest_Some [OF s1(2)])
  show "snd (RefreshAutosuggest this newData) = None"
    by (simp add: r')
  show "LastAutosuggest (fst (RefreshAutosuggest this newData)) = []"
    using s1 by (simp add: r')
  show "\<exists>pre. Effects (fst (RefreshAutosuggest this newData)) =
            Effects this @ pre
            @ [GoRequestCancelableAutosuggest autosuggestDelay (String c)
                 (HistoryBlocksToString (GetLastNBytes (History this) 2000))]
          \<and> filter isRequest pre = []"
    using pre
    by (intro exI [of _ "pre @ (if AutosuggestCancel ?s1 then [CallAutosuggestCancel] else [])"])
       (simp add: r')
qed

text \<open>
  The theorem with \<open>ls\<close> typed and the suggestion \<open> -la\<close> stored: the input \<open> -\<close>
  and the input \<open>x\<close>.
\<close>

theorem C7_witness:
  "2 \<le> length (LastAutosuggest shellExample)
   \<and> RefreshAutosuggest shellExample '' -'' = (shellExample\<lparr>LastAutosuggest := ''la''\<rparr>, None)
   \<and> \<not> HasPrefix (LastAutosuggest shellExample) ''x'' \<and> State shellExample = stateShell
   \<and> Command shellExample = Some \<lparr>buffer = [0x6C, 0x73], cursor = 2\<rparr>
   \<and> snd (RefreshAutosuggest shellExample ''x'') = None
   \<and> LastAutosuggest (fst (RefreshAutosuggest shellExample ''x'')) = []
   \<and> filter isRequest (Effects (fst (RefreshAutosuggest shellExample ''x'')))
        = [GoRequestCancelableAutosuggest 100 ''ls'' []]"
proof -
  have a: "2 \<le> length (LastAutosuggest shellExample)"
    by (simp add: shellExample_def initialState_def)
  have b: "\<not> HasPrefix (LastAutosuggest shellExample) ''x'' \<and> State shellExample = stateShell
     \<and> Command shellExample = Some \<lparr>buffer = [0x6C, 0x73], cursor = 2\<rparr>"
    by (simp add: shellExample_def initialState_def HasPrefix_def)
  have t: "take 2 (LastAutosuggest shellExample) = '' -''" "drop 2 (LastAutosuggest shellExample) = ''la''"
    by (simp_all add: shellExample_def initialState_def)
  have s: "String \<lparr>buffer = [0x6C, 0x73], cursor = 2\<rparr> = ''ls''" by code_simp
  have g: "HistoryBlocksToString (GetLastNBytes (History shellExample) 2000) = []"
    by (simp add: shellExample_def initialState_def NewShellHistory_def GetLastNBytes_def)
  have e: "Effects shellExample = []" by (simp add: shellExample_def initialState_def)
  from C7_typing_into_suggestion [of 2 shellExample "''x''" "\<lparr>buffer = [0x6C, 0x73], cursor = 2\<rparr>"]
  show ?thesis using a b
    by (auto simp: t s g e autosuggestDelay_def)
qed

subsection \<open>Realizing a suggestion with Tab\<close>

text \<open>
  Claim C8, at its own example. The user types \<open>l\<close> and \<open>s\<close>, the suggestion
  \<open>ls -la\<close> arrives for the command \<open>ls\<close> and is rendered, and the user presses
  Tab. The tail \<open> -la\<close> is written to the child, and only there. The command
  buffer still reads \<open>ls\<close>, not \<open>ls -la\<close>, and the suggestion is still stored.
\<close>

theorem C8_tab_leaves_command_behind:
  "(case MuxRun (initialState plainStyle plainStyle silentLLM)
           [ParentInMsg (Some ''l''), ParentInMsg (Some ''s''),
            AutosuggestMsg \<lparr>Command' = ''ls'', Suggestion = ''ls -la''\<rparr>,
            ParentInMsg (Some [CHR 0x09])] of
      (s, f) \<Rightarrow> f = Continue \<and> State s = stateShell
        \<and> filter isChildIn (Effects s) = [ChildIn ''l'', ChildIn ''s'', ChildIn '' -la'']
        \<and> map_option String (Command s) = Some ''ls''
        \<and> LastAutosuggest s = '' -la'')"
  by code_simp

subsection \<open>Receiving a suggestion\<close>

text \<open>
  Claim C6, at an input where it fails. The user has typed \<open>ls\<close> and the result
  for the command \<open>ls\<close> suggests \<open>cd /tmp\<close>, of which \<open>ls\<close> is no prefix.
  Nothing is written to the terminal, but the suggestion is stored; the Tab
  that follows writes it to the child.
\<close>

theorem C6_rejected_suggestion_is_realized:
  "(case MuxRun (initialState plainStyle plainStyle silentLLM)
           [ParentInMsg (Some ''l''), ParentInMsg (Some ''s''),
            AutosuggestMsg \<lparr>Command' = ''ls'', Suggestion = ''cd /tmp''\<rparr>] of
      (s, f) \<Rightarrow> f = Continue \<and> filter isParentOut (Effects s) = []
        \<and> LastAutosuggest s = ''cd /tmp'')
   \<and> (case MuxRun (initialState plainStyle plainStyle silentLLM)
           [ParentInMsg (Some ''l''), ParentInMsg (Some ''s''),
            AutosuggestMsg \<lparr>Command' = ''ls'', Suggestion = ''cd /tmp''\<rparr>,
            ParentInMsg (Some [CHR 0x09])] of
      (s, f) \<Rightarrow> f = Continue
        \<and> filter isChildIn (Effects s) = [ChildIn ''l'', ChildIn ''s'', ChildIn ''cd /tmp''])"
  by code_simp

subsection \<open>Reading the history back\<close>

lemma length_reverseLoop [simp]: "length (reverseLoop xs k) = length xs"
  by (induction k arbitrary: xs) (simp_all add: Let_def)

lemma reverseLoop_nth:
  "2 * k \<le> length xs \<Longrightarrow> j < length xs \<Longrightarrow>
   reverseLoop xs k ! j =
     (if j < k \<or> length xs - k \<le> j then xs ! (length xs - 1 - j) else xs ! j)"
proof (induction k arbitrary: xs)
  case 0
  then show ?case by simp
next
  case (Suc i)
  let ?opp = "length xs - 1 - i"
  let ?ys = "xs[i := xs ! ?opp, ?opp := xs ! i]"
  have len: "length ?ys = length xs" by simp
  have "reverseLoop xs (Suc i) ! j = reverseLoop ?ys i ! j"
    by (simp add: Let_def)
  also have "\<dots> = (if j < i \<or> length ?ys - i \<le> j then ?ys ! (length ?ys - 1 - j) else ?ys ! j)"
    by (rule Suc.IH) (use Suc.prems in simp_all)
  also have "\<dots> = (if j < Suc i \<or> length xs - Suc i \<le> j then xs ! (length xs - 1 - j) else xs ! j)"
    using Suc.prems by (auto simp: nth_list_update)
  finally show ?case .
qed

lemma reverseLoop_rev: "reverseLoop xs (length xs div 2) = rev xs"
proof (rule nth_equalityI)
  show "length (reverseLoop xs (length xs div 2)) = length (rev xs)" by simp
next
  fix j assume "j < length (reverseLoop xs (length xs div 2))"
  then have j: "j < length xs" by simp
  have "reverseLoop xs (length xs div 2) ! j =
     (if j < length xs div 2 \<or> length xs - length xs div 2 \<le> j then xs ! (length xs - 1 - j) else xs ! j)"
    by (rule reverseLoop_nth) (use j in simp_all)
  also have "\<dots> = xs ! (length xs - 1 - j)"
  proof -
    have "\<not> (j < length xs div 2 \<or> length xs - length xs div 2 \<le> j) \<Longrightarrow> length xs - 1 - j = j"
      using j by presburger
    then show ?thesis by auto
  qed
  also have "\<dots> = rev xs ! j" using j by (simp add: rev_nth)
  finally show "reverseLoop xs (length xs div 2) ! j = rev xs ! j" .
qed

lemma totalLength_append: "totalLength (xs @ ys) = totalLength xs + totalLength ys"
  by (simp add: totalLength_def)

lemma totalLength_single: "totalLength [b] = int (length (BlockContent b))"
  by (simp add: totalLength_def)

lemma truncate_take: "(if t < length c then take t c else c) = take t c"
  by simp

lemma collectLoop_Suc:
  "collectLoop bs (Suc i) n acc =
    (if 0 < n \<and> int (length (BlockContent (asBlock (bs ! i)))) \<le> n
     then collectLoop bs i (n - int (length (BlockContent (asBlock (bs ! i)))))
            (acc @ [asBlock (bs ! i)])
     else acc)"
  unfolding collectLoop.simps Let_def truncate_take asBlock_def
  by (simp add: not_less)

lemma collectLoop_spec:
  "k \<le> length bs \<Longrightarrow> 0 \<le> n \<Longrightarrow>
   \<exists>j\<le>k. collectLoop bs k n acc = acc @ rev (map asBlock (drop j (take k bs)))
     \<and> totalLength (map asBlock (drop j (take k bs))) \<le> n
     \<and> (0 < j \<longrightarrow> n - totalLength (map asBlock (drop j (take k bs)))
                     < max 1 (int (length (BlockContent (asBlock (bs ! (j - 1)))))))"
proof (induction k arbitrary: n acc)
  case 0
  then show ?case by (simp add: totalLength_def)
next
  case (Suc i)
  let ?c = "BlockContent (asBlock (bs ! i))"
  have i: "i < length bs" using Suc.prems by simp
  show ?case
  proof (cases "0 < n \<and> int (length ?c) \<le> n")
    case False
    then have "collectLoop bs (Suc i) n acc = acc"
      by (subst collectLoop_Suc) auto
    moreover have "n < max 1 (int (length ?c))"
      using False Suc.prems by auto
    ultimately show ?thesis
      using Suc.prems by (intro exI [of _ "Suc i"]) (simp add: totalLength_def)
  next
    case True
    then have step: "collectLoop bs (Suc i) n acc
        = collectLoop bs i (n - int (length ?c)) (acc @ [asBlock (bs ! i)])"
      by (subst collectLoop_Suc) auto
    from Suc.IH [of "n - int (length ?c)" "acc @ [asBlock (bs ! i)]"] True Suc.prems
    obtain j where j: "j \<le> i"
      "collectLoop bs i (n - int (length ?c)) (acc @ [asBlock (bs ! i)])
         = (acc @ [asBlock (bs ! i)]) @ rev (map asBlock (drop j (take i bs)))"
      "totalLength (map asBlock (drop j (take i bs))) \<le> n - int (length ?c)"
      "0 < j \<longrightarrow> n - int (length ?c) - totalLength (map asBlock (drop j (take i bs)))
                     < max 1 (int (length (BlockContent (asBlock (bs ! (j - 1))))))"
      by auto
    have tk: "drop j (take (Suc i) bs) = drop j (take i bs) @ [bs ! i]"
      using i j(1) by (simp add: take_Suc_conv_app_nth)
    show ?thesis
      using j by (intro exI [of _ j])
        (auto simp add: step tk totalLength_append totalLength_single
              simp del: collectLoop.simps)
  qed
qed


lemma collectLoop_negative: "n < 0 \<Longrightarrow> collectLoop bs k n acc = acc"
  by (cases k) simp_all

lemma length_asBlock: "length (BlockContent (asBlock b)) \<le> truncateLength"
  by (simp add: asBlock_def)

text \<open>
  Claim C5. For every history and every budget \<open>numBytes\<close>, \<^verbatim>\<open>GetLastNBytes\<close>
  returns the blocks from some index \<open>j\<close> to the end, in their order, each with
  its type and with its content cut to the cap of 512 bytes and not cut any
  further. No returned content is longer than the cap. For a budget that is not
  negative the contents together are no longer than the budget. If a block is
  left out (\<open>j > 0\<close>), then the budget that is left is used up or is smaller than
  the capped content of the last block left out: that block is dropped whole,
  not included in part.
\<close>

theorem C5_GetLastNBytes:
  "\<exists>j\<le>length (Blocks this).
      GetLastNBytes this numBytes = map asBlock (drop j (Blocks this))
    \<and> list_all (\<lambda>b. length (BlockContent b) \<le> truncateLength) (GetLastNBytes this numBytes)
    \<and> (0 \<le> numBytes \<longrightarrow> totalLength (GetLastNBytes this numBytes) \<le> numBytes)
    \<and> (0 < j \<longrightarrow>
         numBytes - totalLength (GetLastNBytes this numBytes) \<le> 0
         \<or> numBytes - totalLength (GetLastNBytes this numBytes)
             < int (length (BlockContent (asBlock (Blocks this ! (j - 1))))))"
proof -
  let ?bs = "Blocks this"
  have "\<exists>j\<le>length ?bs.
      collectLoop ?bs (length ?bs) numBytes [] = rev (map asBlock (drop j ?bs))
    \<and> (0 \<le> numBytes \<longrightarrow> totalLength (map asBlock (drop j ?bs)) \<le> numBytes)
    \<and> (0 < j \<longrightarrow> numBytes - totalLength (map asBlock (drop j ?bs))
                    < max 1 (int (length (BlockContent (asBlock (?bs ! (j - 1)))))))"
  proof (cases "0 \<le> numBytes")
    case True
    from collectLoop_spec [OF le_refl True, of ?bs "[]"] True show ?thesis by auto
  next
    case False
    then show ?thesis
      by (intro exI [of _ "length ?bs"]) (auto simp: collectLoop_negative totalLength_def)
  qed
  then obtain j where j: "j \<le> length ?bs"
    "collectLoop ?bs (length ?bs) numBytes [] = rev (map asBlock (drop j ?bs))"
    "0 \<le> numBytes \<longrightarrow> totalLength (map asBlock (drop j ?bs)) \<le> numBytes"
    "0 < j \<longrightarrow> numBytes - totalLength (map asBlock (drop j ?bs))
                    < max 1 (int (length (BlockContent (asBlock (?bs ! (j - 1))))))"
    by blast
  have g: "GetLastNBytes this numBytes = map asBlock (drop j ?bs)"
    by (simp add: GetLastNBytes_def Let_def j(2) reverseLoop_rev [of "rev (map asBlock (drop j ?bs))", simplified])
  have c: "list_all (\<lambda>b. length (BlockContent b) \<le> truncateLength) (map asBlock (drop j ?bs))"
    by (simp add: list_all_iff length_asBlock)
  show ?thesis
    using j(1,3,4) c by (intro exI [of _ j]) (auto simp: g)
qed

text \<open>
  The theorem for the history of \<open>hello\<close> and \<open>ls\<close> and a budget of 6 bytes:
  \<open>ls\<close> is returned, \<open>hello\<close> no longer fits.
\<close>

theorem C5_witness:
  "(0::int) \<le> 6
   \<and> GetLastNBytes historyExample 6
       = [\<lparr>BlockType = historyTypeShellInput, BlockContent = ''ls''\<rparr>]
   \<and> GetLastNBytes historyExample 6 = map asBlock (drop 1 (Blocks historyExample))
   \<and> totalLength (GetLastNBytes historyExample 6) \<le> 6
   \<and> list_all (\<lambda>b. length (BlockContent b) \<le> truncateLength) (GetLastNBytes historyExample 6)
   \<and> 6 - totalLength (GetLastNBytes historyExample 6)
       < int (length (BlockContent (asBlock (Blocks historyExample ! 0))))"
proof -
  have v: "GetLastNBytes historyExample 6
      = [\<lparr>BlockType = historyTypeShellInput, BlockContent = ''ls''\<rparr>]"
    by code_simp
  have d: "map asBlock (drop 1 (Blocks historyExample))
      = [\<lparr>BlockType = historyTypeShellInput, BlockContent = ''ls''\<rparr>]"
    by code_simp
  have r: "6 - totalLength [\<lparr>BlockType = historyTypeShellInput, BlockContent = ''ls''\<rparr>]
       < int (length (BlockContent (asBlock (Blocks historyExample ! 0))))"
    by code_simp
  have g: "GetLastNBytes historyExample 6 = map asBlock (drop 1 (Blocks historyExample))"
    by (simp only: v d)
  have r': "6 - totalLength (GetLastNBytes historyExample 6)
       < int (length (BlockContent (asBlock (Blocks historyExample ! 0))))"
    using r by (simp only: v)
  from C5_GetLastNBytes [of historyExample 6]
  have t: "totalLength (GetLastNBytes historyExample 6) \<le> 6"
    and l: "list_all (\<lambda>b. length (BlockContent b) \<le> truncateLength)
              (GetLastNBytes historyExample 6)"
    by auto
  have z: "(0::int) \<le> 6" by simp
  from z v g t l r' show ?thesis by blast
qed

subsection \<open>Writing to the line buffer\<close>

lemma ansiPattern_head: "\<exists>b. ansiPattern = Seq (Cls [(0x1B, 0x1B), (0x9B, 0x9B)]) b"
  unfolding ansiPattern_def by blast

lemma matchLen_noEscape:
  assumes "noEscape (fst t)"
  shows "matchLen (t # ts) = None"
proof -
  from ansiPattern_head obtain b where b: "ansiPattern = Seq (Cls [(0x1B, 0x1B), (0x9B, 0x9B)]) b"
    by blast
  have "rmatch ansiPattern (t # ts) = []"
    using assms by (auto simp: b noEscape_def)
  then show ?thesis by (simp add: matchLen_def)
qed

lemma strip_tokens_noEscape: "list_all (\<lambda>t. noEscape (fst t)) ts \<Longrightarrow> strip_tokens ts = ts"
  by (induction ts) (simp_all add: matchLen_noEscape)

lemma stripANSI_noEscape: "list_all noEscape (runes data) \<Longrightarrow> stripANSI data = data"
  by (simp add: stripANSI_def runes_def list_all_iff strip_tokens_noEscape concat_tokens)

lemma runes_ESC: "data \<noteq> [] \<Longrightarrow> data ! 0 = CHR 0x1B \<Longrightarrow> \<exists>rs. runes data = 0x1B # rs"
  by (cases data) (simp_all add: runes_def first_def)

lemma not_arrow: "list_all noEscape (runes data) \<Longrightarrow> data \<noteq> [] \<Longrightarrow> data ! 0 \<noteq> CHR 0x1B"
  using runes_ESC [of data] by (auto simp: noEscape_def)

lemma Write_noEscape:
  assumes "list_all noEscape (runes data)"
  shows "Write this data = foldP WriteLoop this (runes data)"
proof (cases "data = []")
  case True
  then show ?thesis by (simp add: Write_empty runes_def)
next
  case False
  with not_arrow [OF assms] stripANSI_noEscape [OF assms] show ?thesis
    by (subst Write.simps) (simp add: Let_def)
qed

lemma WriteLoop_editRune: "cursor_ok this \<Longrightarrow> WriteLoop this r = Inr (editRune this r)"
  by (auto simp: WriteLoop_def WriteRune_def editRune_def deleteBefore_def insertAt_def cursor_ok_def)

lemma editRune_ok: "cursor_ok this \<Longrightarrow> cursor_ok (editRune this r)"
  using WriteLoop_ok [of this r] by (simp add: WriteLoop_editRune)

lemma foldP_editRune: "cursor_ok this \<Longrightarrow> foldP WriteLoop this rs = Inr (foldl editRune this rs)"
  by (induction rs arbitrary: this) (simp_all add: WriteLoop_editRune editRune_ok)

lemma editable_noEscape: "editable r \<Longrightarrow> noEscape r"
  by (auto simp: editable_def noEscape_def isControl_def)

text \<open>
  Claim C2, as amended. A string is written to a line buffer whose cursor is
  inside the buffer, and each rune of the string is backspace, delete, newline,
  carriage return or no control character. Then \<^verbatim>\<open>Write\<close> returns, and the
  buffer is the result of these edits, rune by rune in order: \<open>0x08\<close> or \<open>0x7F\<close>
  deletes the rune before the cursor and moves the cursor back by one (nothing
  changes when the cursor is 0 or the buffer is empty); any other rune, newline
  and carriage return among them, is inserted at the cursor, which moves on by
  one.
\<close>

theorem C2_Write_edits_rune_by_rune:
  assumes "cursor_ok this" and "list_all editable (runes data)"
  shows "Write this data = Inr (foldl editRune this (runes data))"
proof -
  have "list_all noEscape (runes data)"
    using assms(2) by (simp add: list_all_iff editable_noEscape)
  then show ?thesis
    by (simp add: Write_noEscape foldP_editRune [OF assms(1)])
qed

text \<open>The theorem for \<open>ab\<close>, a backspace and \<open>c\<close> written to the empty buffer.\<close>

theorem C2_witness:
  "cursor_ok NewShellBuffer \<and> list_all editable (runes (''ab'' @ [CHR 0x08] @ ''c''))
   \<and> Write NewShellBuffer (''ab'' @ [CHR 0x08] @ ''c'') = Inr \<lparr>buffer = [0x61, 0x63], cursor = 2\<rparr>"
proof -
  have e: "list_all editable (runes (''ab'' @ [CHR 0x08] @ ''c''))" by code_simp
  have v: "foldl editRune NewShellBuffer (runes (''ab'' @ [CHR 0x08] @ ''c''))
      = \<lparr>buffer = [0x61, 0x63], cursor = 2\<rparr>"
    by code_simp
  from C2_Write_edits_rune_by_rune [OF cursor_ok_New e]
  have "Write NewShellBuffer (''ab'' @ [CHR 0x08] @ ''c'') = Inr \<lparr>buffer = [0x61, 0x63], cursor = 2\<rparr>"
    by (simp only: v)
  with cursor_ok_New e show ?thesis by blast
qed

text \<open>
  The claim as stated fails at the string of one newline, a control character it
  does not list: the newline is not ignored but inserted.
\<close>

theorem C2_counterexample:
  "isControl 0x0A
   \<and> Write NewShellBuffer [CHR 0x0A] = Inr \<lparr>buffer = [0x0A], cursor = 1\<rparr>"
  by code_simp

text \<open>
  Two inputs the amended claim leaves out. \<^verbatim>\<open>Write\<close> looks for CSI D and CSI C
  only after \<^verbatim>\<open>stripANSI\<close> has removed them, so a left arrow does not move the
  cursor. The comment on \<^verbatim>\<open>ShellBuffer\<close> says that \<open>0x00\<close> is ignored; it is
  inserted.
\<close>

lemma arrows_are_stripped:
  "Write \<lparr>buffer = [0x61, 0x62], cursor = 2\<rparr> [CHR 0x1B, CHR 0x5B, CHR 0x44]
     = Inr \<lparr>buffer = [0x61, 0x62], cursor = 2\<rparr>"
  by code_simp

lemma nul_is_inserted:
  "Write NewShellBuffer [CHR 0x00] = Inr \<lparr>buffer = [0x00], cursor = 1\<rparr>"
  by code_simp

subsection \<open>Adding and appending to the history\<close>

lemma WriteLoop_append:
  "at_end this \<Longrightarrow> plainRune r \<Longrightarrow>
   WriteLoop this r = Inr (this\<lparr>buffer := buffer this @ [r], cursor := cursor this + 1\<rparr>)"
  by (simp add: WriteLoop_def WriteRune_def at_end_def plainRune_def)

lemma foldP_append:
  "at_end this \<Longrightarrow> list_all plainRune rs \<Longrightarrow>
   foldP WriteLoop this rs
     = Inr (this\<lparr>buffer := buffer this @ rs, cursor := cursor this + int (length rs)\<rparr>)"
proof (induction rs arbitrary: this)
  case Nil
  then show ?case by simp
next
  case (Cons r rs)
  let ?next = "this\<lparr>buffer := buffer this @ [r], cursor := cursor this + 1\<rparr>"
  have "at_end ?next" using Cons.prems(1) by (simp add: at_end_def)
  from Cons.IH [OF this] Cons.prems show ?case
    by (simp add: WriteLoop_append)
qed

lemma Write_plain:
  assumes "at_end this" and "list_all plainRune (runes data)"
  shows "Write this data
     = Inr (this\<lparr>buffer := buffer this @ runes data,
                 cursor := cursor this + int (length (runes data))\<rparr>)"
proof -
  have "list_all noEscape (runes data)"
    using assms(2) by (simp add: list_all_iff plainRune_def)
  then show ?thesis
    by (simp add: Write_noEscape foldP_append [OF assms])
qed

lemma String_Write_plain:
  assumes "at_end this" and "plain data" and "Write this data = Inr c"
  shows "String c = String this @ data" and "at_end c"
  using assms Write_plain [of this data]
  by (auto simp: plain_def String_def string_of_runes_def at_end_def)

lemma at_end_New: "at_end NewShellBuffer"
  by (simp add: at_end_def NewShellBuffer_def)

lemma String_New: "String NewShellBuffer = []"
  by (simp add: String_def NewShellBuffer_def string_of_runes_def)

text \<open>
  Claim C4, as amended. \<^verbatim>\<open>Add(t, a)\<close> followed by \<^verbatim>\<open>Append(t, b)\<close> returns and
  adds to the log exactly one block, of type \<open>t\<close>; its content is the line buffer
  that results from writing \<open>a\<close> and then \<open>b\<close> to an empty buffer, and it reads
  \<open>a\<close> followed by \<open>b\<close> when both are plain (valid UTF-8 with no backspace, no
  delete and no rune that starts an escape sequence). With types \<open>t1 \<noteq> t2\<close>,
  \<^verbatim>\<open>Add(t1, a)\<close> followed by \<^verbatim>\<open>Append(t2, b)\<close> adds two blocks, of type \<open>t1\<close> and
  of type \<open>t2\<close>, holding what writing \<open>a\<close> and what writing \<open>b\<close> to an empty
  buffer gives: \<open>a\<close> and \<open>b\<close> themselves when they are plain.
\<close>

theorem C4_add_then_append:
  "(\<exists>c1 c. Write NewShellBuffer a = Inr c1 \<and> Write c1 b = Inr c
       \<and> AddThenAppend this t a t b
            = Inr (this\<lparr>Blocks := Blocks this @ [\<lparr>Type = t, Content = c\<rparr>]\<rparr>)
       \<and> (plain a \<and> plain b \<longrightarrow> String c = a @ b))
   \<and> (t1 \<noteq> t2 \<longrightarrow>
       (\<exists>ca cb. Write NewShellBuffer a = Inr ca \<and> Write NewShellBuffer b = Inr cb
          \<and> AddThenAppend this t1 a t2 b
               = Inr (this\<lparr>Blocks := Blocks this @ [\<lparr>Type = t1, Content = ca\<rparr>,
                                                      \<lparr>Type = t2, Content = cb\<rparr>]\<rparr>)
          \<and> (plain a \<longrightarrow> String ca = a) \<and> (plain b \<longrightarrow> String cb = b)))"
proof -
  obtain ca where ca: "Write NewShellBuffer a = Inr ca" "cursor_ok ca"
    using Write_returns [OF cursor_ok_New] by blast
  obtain cb where cb: "Write NewShellBuffer b = Inr cb"
    using Write_returns [OF cursor_ok_New] by blast
  obtain c where c: "Write ca b = Inr c"
    using Write_returns [OF ca(2)] by blast
  have pa: "plain a \<Longrightarrow> String ca = a \<and> at_end ca"
    using String_Write_plain [OF at_end_New _ ca(1)] by (simp add: String_New)
  have pb: "plain b \<Longrightarrow> String cb = b"
    using String_Write_plain [OF at_end_New _ cb] by (simp add: String_New)
  have pab: "plain a \<and> plain b \<longrightarrow> String c = a @ b"
    using pa String_Write_plain(1) [OF _ _ c] by auto
  have same: "AddThenAppend this t a t b
       = Inr (this\<lparr>Blocks := Blocks this @ [\<lparr>Type = t, Content = c\<rparr>]\<rparr>)"
    by (simp add: AddThenAppend_def Add_def Append_def ca c)
  have other: "t1 \<noteq> t2 \<Longrightarrow> AddThenAppend this t1 a t2 b
       = Inr (this\<lparr>Blocks := Blocks this @ [\<lparr>Type = t1, Content = ca\<rparr>,
                                              \<lparr>Type = t2, Content = cb\<rparr>]\<rparr>)"
    by (simp add: AddThenAppend_def Add_def Append_def ca cb)
  show ?thesis
    using ca(1) cb c pa pb pab same other by blast
qed

text \<open>
  The claim as stated fails for \<open>a = x\<close> and \<open>b\<close> a backspace: the one block that
  is added is empty, not \<open>x\<close> followed by a backspace.
\<close>

theorem C4_counterexample:
  "AddThenAppend NewShellHistory historyTypeShellOutput ''x'' historyTypeShellOutput [CHR 0x08]
     = Inr \<lparr>Blocks = [\<lparr>Type = historyTypeShellOutput, Content = \<lparr>buffer = [], cursor = 0\<rparr>\<rparr>]\<rparr>
   \<and> String \<lparr>buffer = [], cursor = 0\<rparr> = []
   \<and> ''x'' @ [CHR 0x08] \<noteq> []"
  by code_simp

text \<open>The theorem for \<open>foo\<close> and \<open>bar\<close>, with equal and with distinct types.\<close>

theorem C4_witness:
  "plain ''foo'' \<and> plain ''bar''
   \<and> (\<exists>c. AddThenAppend NewShellHistory historyTypeShellOutput ''foo'' historyTypeShellOutput ''bar''
            = Inr \<lparr>Blocks = [\<lparr>Type = historyTypeShellOutput, Content = c\<rparr>]\<rparr>
          \<and> String c = ''foobar'')
   \<and> historyTypeShellInput \<noteq> historyTypeShellOutput
   \<and> (\<exists>ca cb. AddThenAppend NewShellHistory historyTypeShellInput ''foo'' historyTypeShellOutput ''bar''
            = Inr \<lparr>Blocks = [\<lparr>Type = historyTypeShellInput, Content = ca\<rparr>,
                              \<lparr>Type = historyTypeShellOutput, Content = cb\<rparr>]\<rparr>
          \<and> String ca = ''foo'' \<and> String cb = ''bar'')"
proof -
  have p: "plain ''foo''" "plain ''bar''" by code_simp+
  have n: "historyTypeShellInput \<noteq> historyTypeShellOutput"
    by (simp add: historyTypeShellInput_def historyTypeShellOutput_def)
  from C4_add_then_append [of "''foo''" "''bar''" NewShellHistory historyTypeShellOutput
      historyTypeShellInput historyTypeShellOutput] p n
  show ?thesis by (auto simp: NewShellHistory_def)
qed

end
